theory Spec2Isabelle
  imports Complex_Main "HOL-Library.Word" "HOL-Library.Log_Nat"
begin

section \<open>The node value model (lib/json/JsonNode.cpp)\<close>

text \<open>
  The discriminant \<^verbatim>\<open>JsonNode::JsonType\<close>. \<^verbatim>\<open>getType\<close> is
  \<^verbatim>\<open>static_cast<JsonType>(data.index())\<close>, so the enumerators stand in the order of the
  alternatives of the variant: the order in which \<^verbatim>\<open>setType\<close> lists them.
\<close>

datatype JsonType =
  DATA_NULL | DATA_BOOL | DATA_FLOAT | DATA_STRING | DATA_VECTOR | DATA_STRUCT | DATA_INTEGER

type_synonym si64 = "64 word"
type_synonym size_t = "64 word"

text \<open>
  Modelled from the spec: the header JsonNode.h, which declares the class, is not among the
  sources. The payload is "exactly one of bool, 64-bit signed integer, 64-bit float, owned
  string, ordered sequence of Node, ordered mapping from string key to Node", and a node carries
  "a provenance string" (\<^verbatim>\<open>meta\<close>) and "a set of string tags" (\<^verbatim>\<open>flags\<close>, which the
  writer joins in order, so a list). \<^verbatim>\<open>JsonData\<close> is the variant, \<^verbatim>\<open>'n\<close> its node type;
  \<^verbatim>\<open>JsonVector\<close> is a list and \<^verbatim>\<open>JsonMap\<close> an association list in iteration order
  (\<^verbatim>\<open>begin()\<close> to \<^verbatim>\<open>end()\<close>) with one entry for each key.

  The 64-bit float is the type parameter \<^verbatim>\<open>'f\<close>: the code never computes with a double, it
  only casts, default-initialises and prints one. These four primitives of C++ are the fields
  of \<^verbatim>\<open>double_ops\<close>: \<^verbatim>\<open>cast_si64\<close> is \<^verbatim>\<open>static_cast<si64>(double)\<close>, which is undefined
  (\<^verbatim>\<open>None\<close>) where the truncated value does not fit si64; \<^verbatim>\<open>cast_double\<close> is
  \<^verbatim>\<open>static_cast<double>(si64)\<close>, \<^verbatim>\<open>double_zero\<close> is the literal 0.0 and \<^verbatim>\<open>put_double\<close> is
  \<^verbatim>\<open>operator<<(std::ostream &, double)\<close>. The section on binary64 below gives the two casts
  and the zero on IEEE doubles; the printing of a double stays a parameter (the specification
  leaves the formatting of floats out).
\<close>

datatype ('f, 'n) JsonData =
    Monostate
  | BoolV bool
  | DoubleV 'f
  | StringV string
  | VectorV "'n list"
  | MapV "(string \<times> 'n) list"
  | Si64V si64

datatype 'f JsonNode =
  JsonNode (data: "('f, 'f JsonNode) JsonData") (meta: string) (flags: "string list")

record 'f double_ops =
  cast_si64 :: "'f \<Rightarrow> si64 option"
  cast_double :: "si64 \<Rightarrow> 'f"
  double_zero :: 'f
  put_double :: "'f \<Rightarrow> string"

text \<open>\<^verbatim>\<open>static const JsonNode nullNode;\<close> and every default-constructed node: Null, no
  metadata, no flags.\<close>

definition nullNode :: "'f JsonNode" where
  "nullNode = JsonNode Monostate [] []"

definition getType :: "'f JsonNode \<Rightarrow> JsonType" where
  "getType n =
     (case data n of
        Monostate \<Rightarrow> DATA_NULL
      | BoolV _ \<Rightarrow> DATA_BOOL
      | DoubleV _ \<Rightarrow> DATA_FLOAT
      | StringV _ \<Rightarrow> DATA_STRING
      | VectorV _ \<Rightarrow> DATA_VECTOR
      | MapV _ \<Rightarrow> DATA_STRUCT
      | Si64V _ \<Rightarrow> DATA_INTEGER)"

subsection \<open>Errors\<close>

text \<open>
  Every way the code leaves a function other than by returning:
  \<^item> \<^verbatim>\<open>InvalidPointer\<close>: \<^verbatim>\<open>throw std::runtime_error("Invalid Json pointer")\<close>;
  \<^item> \<^verbatim>\<open>BadLexicalCast\<close>: \<^verbatim>\<open>boost::bad_lexical_cast\<close>, thrown by \<^verbatim>\<open>boost::lexical_cast\<close>;
  \<^item> \<^verbatim>\<open>LengthError\<close> and \<^verbatim>\<open>BadAlloc\<close>: \<^verbatim>\<open>std::length_error\<close> and \<^verbatim>\<open>std::bad_alloc\<close>,
    thrown by \<^verbatim>\<open>std::vector::resize\<close>;
  \<^item> \<^verbatim>\<open>AssertionFailed\<close>: a failed \<^verbatim>\<open>assert\<close>, in a build that compiles assertions in;
  \<^item> \<^verbatim>\<open>OutOfBounds\<close>: \<^verbatim>\<open>std::vector::operator[]\<close> past the end (undefined in C++);
  \<^item> \<^verbatim>\<open>UndefinedCast\<close>: \<^verbatim>\<open>static_cast<si64>\<close> of a double whose truncated value does not
    fit si64 (undefined in C++).
  Functions that contain an \<^verbatim>\<open>assert\<close> take a flag \<^verbatim>\<open>asserts\<close>: \<^verbatim>\<open>True\<close> for a build
  with assertions, \<^verbatim>\<open>False\<close> for one with \<^verbatim>\<open>NDEBUG\<close>, where \<^verbatim>\<open>assert\<close> expands to nothing.
\<close>

datatype error =
  InvalidPointer | BadLexicalCast | LengthError | BadAlloc | AssertionFailed | OutOfBounds
  | UndefinedCast

text \<open>\<^verbatim>\<open>setType\<close> assigns \<^verbatim>\<open>data\<close> only; \<^verbatim>\<open>meta\<close> and \<^verbatim>\<open>flags\<close> stay. The two
  \<^verbatim>\<open>std::get\<close> calls stand under the test of the type they read, so they are the two
  patterns of the case; every other pair falls to the final switch. The result is the node
  afterwards, or \<^verbatim>\<open>UndefinedCast\<close> where the cast of the float is undefined.\<close>

fun setType :: "'f double_ops \<Rightarrow> JsonType \<Rightarrow> 'f JsonNode \<Rightarrow> error + 'f JsonNode" where
  "setType ops Type (JsonNode d m fl) =
     (if getType (JsonNode d m fl) = Type then Inr (JsonNode d m fl)
      else
        (case (d, Type) of
           (DoubleV x, DATA_INTEGER) \<Rightarrow>
             (case cast_si64 ops x of
                None \<Rightarrow> Inl UndefinedCast
              | Some converted \<Rightarrow> Inr (JsonNode (Si64V converted) m fl))
         | (Si64V i, DATA_FLOAT) \<Rightarrow> Inr (JsonNode (DoubleV (cast_double ops i)) m fl)
         | _ \<Rightarrow>
            (case Type of
               DATA_NULL \<Rightarrow> Inr (JsonNode Monostate m fl)
             | DATA_BOOL \<Rightarrow> Inr (JsonNode (BoolV False) m fl)
             | DATA_FLOAT \<Rightarrow> Inr (JsonNode (DoubleV (double_zero ops)) m fl)
             | DATA_STRING \<Rightarrow> Inr (JsonNode (StringV []) m fl)
             | DATA_VECTOR \<Rightarrow> Inr (JsonNode (VectorV []) m fl)
             | DATA_STRUCT \<Rightarrow> Inr (JsonNode (MapV []) m fl)
             | DATA_INTEGER \<Rightarrow> Inr (JsonNode (Si64V 0) m fl))))"

subsection \<open>Const typed accessors\<close>

definition boolDefault :: bool where
  "boolDefault = False"

definition Bool_const :: "bool \<Rightarrow> 'f JsonNode \<Rightarrow> error + bool" where
  "Bool_const asserts n =
     (if asserts \<and> \<not> (getType n = DATA_NULL \<or> getType n = DATA_BOOL) then Inl AssertionFailed
      else (case data n of BoolV b \<Rightarrow> Inr b | _ \<Rightarrow> Inr boolDefault))"

definition floatDefault :: "'f double_ops \<Rightarrow> 'f" where
  "floatDefault ops = double_zero ops"

definition Float_const :: "'f double_ops \<Rightarrow> bool \<Rightarrow> 'f JsonNode \<Rightarrow> error + 'f" where
  "Float_const ops asserts n =
     (if asserts \<and> \<not> (getType n = DATA_NULL \<or> getType n = DATA_INTEGER \<or> getType n = DATA_FLOAT)
      then Inl AssertionFailed
      else (case data n of
              DoubleV x \<Rightarrow> Inr x
            | Si64V i \<Rightarrow> Inr (cast_double ops i)
            | _ \<Rightarrow> Inr (floatDefault ops)))"

definition integerDefault :: si64 where
  "integerDefault = 0"

definition Integer_const :: "'f double_ops \<Rightarrow> bool \<Rightarrow> 'f JsonNode \<Rightarrow> error + si64" where
  "Integer_const ops asserts n =
     (if asserts \<and> \<not> (getType n = DATA_NULL \<or> getType n = DATA_INTEGER \<or> getType n = DATA_FLOAT)
      then Inl AssertionFailed
      else (case data n of
              Si64V i \<Rightarrow> Inr i
            | DoubleV x \<Rightarrow>
                (case cast_si64 ops x of None \<Rightarrow> Inl UndefinedCast | Some converted \<Rightarrow> Inr converted)
            | _ \<Rightarrow> Inr integerDefault))"

definition stringDefault :: string where
  "stringDefault = []"

definition String_const :: "bool \<Rightarrow> 'f JsonNode \<Rightarrow> error + string" where
  "String_const asserts n =
     (if asserts \<and> \<not> (getType n = DATA_NULL \<or> getType n = DATA_STRING) then Inl AssertionFailed
      else (case data n of StringV s \<Rightarrow> Inr s | _ \<Rightarrow> Inr stringDefault))"

definition vectorDefault :: "'f JsonNode list" where
  "vectorDefault = []"

definition Vector_const :: "bool \<Rightarrow> 'f JsonNode \<Rightarrow> error + 'f JsonNode list" where
  "Vector_const asserts n =
     (if asserts \<and> \<not> (getType n = DATA_NULL \<or> getType n = DATA_VECTOR) then Inl AssertionFailed
      else (case data n of VectorV v \<Rightarrow> Inr v | _ \<Rightarrow> Inr vectorDefault))"

definition mapDefault :: "(string \<times> 'f JsonNode) list" where
  "mapDefault = []"

definition Struct_const :: "bool \<Rightarrow> 'f JsonNode \<Rightarrow> error + (string \<times> 'f JsonNode) list" where
  "Struct_const asserts n =
     (if asserts \<and> \<not> (getType n = DATA_NULL \<or> getType n = DATA_STRUCT) then Inl AssertionFailed
      else (case data n of MapV mp \<Rightarrow> Inr mp | _ \<Rightarrow> Inr mapDefault))"

subsection \<open>Mutable typed accessors\<close>

text \<open>A mutable accessor retypes the node and returns a reference to the payload. The model
  returns the node after \<^verbatim>\<open>setType\<close> together with the payload the reference points to.
  \<^verbatim>\<open>setType\<close> to Sequence or to Mapping makes no cast, so it returns a node (lemma
  \<^verbatim>\<open>setType_no_cast\<close> below) and the first branch of the case is never taken.\<close>

definition Vector_mut :: "'f double_ops \<Rightarrow> 'f JsonNode \<Rightarrow> 'f JsonNode \<times> 'f JsonNode list" where
  "Vector_mut ops n =
     (case setType ops DATA_VECTOR n of
        Inl e \<Rightarrow> (n, [])
      | Inr n' \<Rightarrow> (n', case data n' of VectorV v \<Rightarrow> v | _ \<Rightarrow> []))"

definition Struct_mut ::
  "'f double_ops \<Rightarrow> 'f JsonNode \<Rightarrow> 'f JsonNode \<times> (string \<times> 'f JsonNode) list" where
  "Struct_mut ops n =
     (case setType ops DATA_STRUCT n of
        Inl e \<Rightarrow> (n, [])
      | Inr n' \<Rightarrow> (n', case data n' of MapV mp \<Rightarrow> mp | _ \<Rightarrow> []))"

subsection \<open>Structural predicates\<close>

text \<open>\<^verbatim>\<open>isCompact\<close> switches on the type and reads the payload of that type, so each case is
  a pattern on the payload. The loop over a vector returns false at the first element that is
  not compact: \<^verbatim>\<open>list_all\<close>. \<^verbatim>\<open>Struct().begin()->second\<close> is the value of the first entry.\<close>

fun isCompact :: "'f JsonNode \<Rightarrow> bool" where
  "isCompact (JsonNode (VectorV v) m fl) = list_all isCompact v"
| "isCompact (JsonNode (MapV mp) m fl) =
     (let propertyCount = length mp
      in if propertyCount = 0 then True
         else if propertyCount = 1 then (case mp of (k, e) # _ \<Rightarrow> isCompact e | [] \<Rightarrow> False)
         else False)"
| "isCompact (JsonNode _ m fl) = True"

subsection \<open>TryBoolFromString\<close>

text \<open>\<^verbatim>\<open>boost::algorithm::trim\<close> and \<^verbatim>\<open>to_lower\<close> are library functions; both use
  \<^verbatim>\<open>std::locale()\<close>, modelled as the classic "C" locale: \<^verbatim>\<open>isspace\<close> holds of space and
  of the codes 9 to 13, \<^verbatim>\<open>tolower\<close> maps A..Z to a..z and nothing else.\<close>

definition is_space :: "char \<Rightarrow> bool" where
  "is_space c = (c \<in> set [CHR 0x20, CHR 0x09, CHR 0x0A, CHR 0x0B, CHR 0x0C, CHR 0x0D])"

definition trim :: "string \<Rightarrow> string" where
  "trim s = dropWhile is_space (rev (dropWhile is_space (rev s)))"

definition tolower :: "char \<Rightarrow> char" where
  "tolower c =
     (case map_of (zip ''ABCDEFGHIJKLMNOPQRSTUVWXYZ'' ''abcdefghijklmnopqrstuvwxyz'') c of
        Some l \<Rightarrow> l
      | None \<Rightarrow> c)"

definition to_lower :: "string \<Rightarrow> string" where
  "to_lower s = map tolower s"

text \<open>The result is the pair (returned value, \<^verbatim>\<open>success\<close>). \<^verbatim>\<open>Bool()\<close> and
  \<^verbatim>\<open>String()\<close> are the const accessors, called under the test of their own type, where
  their assertion holds and they return the payload.\<close>

definition TryBoolFromString :: "'f JsonNode \<Rightarrow> bool \<times> bool" where
  "TryBoolFromString n =
     (if getType n = DATA_BOOL
      then (case data n of BoolV b \<Rightarrow> (b, True) | _ \<Rightarrow> (boolDefault, True))
      else
        (let success = (getType n = DATA_STRING)
         in if success
            then
              (let boolParamStr = (case data n of StringV s \<Rightarrow> s | _ \<Rightarrow> stringDefault);
                   boolParamStr = trim boolParamStr;
                   boolParamStr = to_lower boolParamStr;
                   success = (boolParamStr = ''true'')
               in if success then (True, success)
                  else (False, boolParamStr = ''false''))
            else (False, success)))"

subsection \<open>Indexing\<close>

text \<open>\<^verbatim>\<open>std::less<std::string>\<close>, the order of the keys of a \<^verbatim>\<open>std::map\<close>: lexicographic
  on the bytes, a proper prefix first.\<close>

fun str_less :: "string \<Rightarrow> string \<Rightarrow> bool" where
  "str_less [] [] = False"
| "str_less [] (y # ys) = True"
| "str_less (x # xs) [] = False"
| "str_less (x # xs) (y # ys) =
     (if (of_char x :: nat) < of_char y then True
      else if (of_char y :: nat) < of_char x then False
      else str_less xs ys)"

text \<open>\<^verbatim>\<open>std::map::operator[]\<close>: the entry of the key, inserted at its place in the order
  with a default-constructed value when the map has none. The result is the map afterwards and
  the value the returned reference points to. (The order is the one of a
  \<^verbatim>\<open>std::map<std::string, JsonNode>\<close>; what is proved below about the insertion holds
  wherever the new entry is placed.)\<close>

fun map_subscript ::
  "(string \<times> 'n) list \<Rightarrow> string \<Rightarrow> 'n \<Rightarrow> (string \<times> 'n) list \<times> 'n" where
  "map_subscript [] k dflt = ([(k, dflt)], dflt)"
| "map_subscript ((k', v) # r) k dflt =
     (if k = k' then ((k', v) # r, v)
      else if str_less k k' then ((k, dflt) # (k', v) # r, dflt)
      else (let (r', x) = map_subscript r k dflt in ((k', v) # r', x)))"

text \<open>What bounds the growth of a \<^verbatim>\<open>std::vector<JsonNode>\<close>: \<^verbatim>\<open>max_size()\<close>, a
  constant of the implementation, and the number of elements the allocator can provide when
  asked, which depends on the memory that is free.\<close>

record vector_limits =
  max_size :: nat
  available :: nat

text \<open>\<^verbatim>\<open>std::vector::resize\<close>: cut to the first \<^verbatim>\<open>count\<close> elements, or filled up with
  default-constructed nodes. A \<^verbatim>\<open>count\<close> above \<^verbatim>\<open>max_size()\<close> throws
  \<^verbatim>\<open>std::length_error\<close>, one that the allocator cannot provide throws \<^verbatim>\<open>std::bad_alloc\<close>;
  in both cases the vector is left as it was.\<close>

definition resize :: "vector_limits \<Rightarrow> 'f JsonNode list \<Rightarrow> nat \<Rightarrow> error + 'f JsonNode list" where
  "resize lims v count =
     (if count \<le> length v then Inr (take count v)
      else if max_size lims < count then Inl LengthError
      else if available lims < count then Inl BadAlloc
      else Inr (v @ replicate (count - length v) nullNode))"

text \<open>\<^verbatim>\<open>JsonNode & operator[](const std::string & child)\<close>: the node afterwards and the
  child the reference points to.\<close>

definition subscript_key ::
  "'f double_ops \<Rightarrow> 'f JsonNode \<Rightarrow> string \<Rightarrow> 'f JsonNode \<times> 'f JsonNode" where
  "subscript_key ops n child =
     (let (n', mp) = Struct_mut ops n;
          (mp', c) = map_subscript mp child nullNode
      in (JsonNode (MapV mp') (meta n') (flags n'), c))"

text \<open>\<^verbatim>\<open>const JsonNode & operator[](const std::string & child) const\<close>. \<^verbatim>\<open>find\<close> on a
  map with one entry for each key is \<^verbatim>\<open>map_of\<close>.\<close>

definition subscript_key_const :: "bool \<Rightarrow> 'f JsonNode \<Rightarrow> string \<Rightarrow> error + 'f JsonNode" where
  "subscript_key_const asserts n child =
     (case Struct_const asserts n of
        Inl e \<Rightarrow> Inl e
      | Inr mp \<Rightarrow> (case map_of mp child of Some c \<Rightarrow> Inr c | None \<Rightarrow> Inr nullNode))"

text \<open>\<^verbatim>\<open>JsonNode & operator[](size_t child)\<close>. \<^verbatim>\<open>child + 1\<close> is computed in
  \<^verbatim>\<open>size_t\<close>, taken as 64 bits wide, and wraps to 0 at the greatest value. The result is the
  node afterwards and the element the reference points to, or the exception of \<^verbatim>\<open>resize\<close>,
  or \<^verbatim>\<open>OutOfBounds\<close> when \<^verbatim>\<open>Vector()[child]\<close> reads past the end.\<close>

definition subscript_index ::
  "'f double_ops \<Rightarrow> vector_limits \<Rightarrow> 'f JsonNode \<Rightarrow> size_t \<Rightarrow>
     'f JsonNode \<times> (error + 'f JsonNode)" where
  "subscript_index ops lims n child =
     (let (n', v) = Vector_mut ops n
      in case (if unat child \<ge> length v then resize lims v (unat (child + 1)) else Inr v) of
           Inl e \<Rightarrow> (n', Inl e)
         | Inr v' \<Rightarrow>
            (JsonNode (VectorV v') (meta n') (flags n'),
             if unat child < length v' then Inr (v' ! unat child) else Inl OutOfBounds))"


section \<open>The pointer resolver (resolvePointer, lib/json/JsonNode.cpp)\<close>

text \<open>\<^verbatim>\<open>std::string::find(ch, pos)\<close>: the first index from \<^verbatim>\<open>pos\<close> on that holds
  \<^verbatim>\<open>ch\<close>; \<^verbatim>\<open>None\<close> is \<^verbatim>\<open>npos\<close>.\<close>

function find_char :: "string \<Rightarrow> char \<Rightarrow> nat \<Rightarrow> nat option" where
  "find_char s ch pos =
     (if pos < length s then (if s ! pos = ch then Some pos else find_char s ch (Suc pos))
      else None)"
  by pat_completeness auto
termination
  by (relation "measure (\<lambda>(s, ch, pos). length s - pos)") auto

declare find_char.simps [simp del]

text \<open>\<^verbatim>\<open>std::string::substr(pos, count)\<close> for \<^verbatim>\<open>pos\<close> within the string, as at both calls
  of the resolver.\<close>

definition substr :: "string \<Rightarrow> nat \<Rightarrow> nat \<Rightarrow> string" where
  "substr s pos count = take count (drop pos s)"

definition is_digit :: "char \<Rightarrow> bool" where
  "is_digit c = (c \<in> set ''0123456789'')"

definition digit_value :: "char \<Rightarrow> nat" where
  "digit_value c = of_char c - 48"

definition decimal :: "string \<Rightarrow> nat" where
  "decimal s = foldl (\<lambda>a c. 10 * a + digit_value c) 0 s"

text \<open>\<^verbatim>\<open>boost::lexical_cast<size_t>\<close> on a string of decimal digits (the resolver calls it on
  no other): the number, or \<^verbatim>\<open>bad_lexical_cast\<close> (\<^verbatim>\<open>None\<close>) when the string is empty or the
  number does not fit \<^verbatim>\<open>size_t\<close>.\<close>

definition lexical_cast_size_t :: "string \<Rightarrow> size_t option" where
  "lexical_cast_size_t s =
     (if s = [] \<or> list_ex (\<lambda>c. \<not> is_digit c) s then None
      else if decimal s < 2 ^ 64 then Some (of_nat (decimal s))
      else None)"

text \<open>The two halves of the pointer. When \<^verbatim>\<open>find\<close> returns \<^verbatim>\<open>npos\<close> the count
  \<^verbatim>\<open>splitPos - 1\<close> is greater than the length of any string, and \<^verbatim>\<open>substr\<close> returns the
  rest of the string.\<close>

definition pointer_entry :: "string \<Rightarrow> string" where
  "pointer_entry pointer =
     (case find_char pointer (CHR ''/'') 1 of
        None \<Rightarrow> drop 1 pointer
      | Some splitPos \<Rightarrow> substr pointer 1 (splitPos - 1))"

definition pointer_remainer :: "string \<Rightarrow> string" where
  "pointer_remainer pointer =
     (case find_char pointer (CHR ''/'') 1 of
        None \<Rightarrow> []
      | Some splitPos \<Rightarrow> drop splitPos pointer)"

lemma find_char_bounds: "find_char s ch pos = Some p \<Longrightarrow> pos \<le> p \<and> p < length s \<and> s ! p = ch"
proof (induction s ch pos rule: find_char.induct)
  case (1 s ch pos)
  show ?case
  proof (cases "pos < length s")
    case False
    with "1.prems" show ?thesis by (simp add: find_char.simps [of s ch pos])
  next
    case True
    show ?thesis
    proof (cases "s ! pos = ch")
      case True
      with \<open>pos < length s\<close> "1.prems" show ?thesis
        by (simp add: find_char.simps [of s ch pos])
    next
      case False
      with \<open>pos < length s\<close> "1.prems" have "find_char s ch (Suc pos) = Some p"
        by (simp add: find_char.simps [of s ch pos])
      with "1.IH" \<open>pos < length s\<close> False show ?thesis by auto
    qed
  qed
qed

lemma pointer_remainer_shorter: "pointer \<noteq> [] \<Longrightarrow> length (pointer_remainer pointer) < length pointer"
  by (auto simp: pointer_remainer_def split: option.splits dest: find_char_bounds)

text \<open>The template at \<^verbatim>\<open>const JsonNode\<close>. Where the index is out of bounds the code leaves
  the \<^verbatim>\<open>if\<close> and goes on to \<^verbatim>\<open>in[entry]\<close>, the last statement, as a node that is no vector
  does.\<close>

function resolvePointer_const :: "bool \<Rightarrow> 'f JsonNode \<Rightarrow> string \<Rightarrow> error + 'f JsonNode" where
  "resolvePointer_const asserts n pointer =
     (if pointer = [] then Inr n
      else if asserts \<and> pointer ! 0 \<noteq> CHR ''/'' then Inl AssertionFailed
      else
        (let entry = pointer_entry pointer;
             remainer = pointer_remainer pointer
         in if getType n = DATA_VECTOR
            then
              (if list_ex (\<lambda>c. \<not> is_digit c) entry then Inl InvalidPointer
               else if length entry > 1 \<and> entry ! 0 = CHR ''0'' then Inl InvalidPointer
               else
                 (case lexical_cast_size_t entry of
                    None \<Rightarrow> Inl BadLexicalCast
                  | Some index \<Rightarrow>
                     (case Vector_const asserts n of
                        Inl e \<Rightarrow> Inl e
                      | Inr v \<Rightarrow>
                         if length v > unat index
                         then resolvePointer_const asserts (v ! unat index) remainer
                         else
                           (case subscript_key_const asserts n entry of
                              Inl e \<Rightarrow> Inl e
                            | Inr c \<Rightarrow> resolvePointer_const asserts c remainer))))
            else
              (case subscript_key_const asserts n entry of
                 Inl e \<Rightarrow> Inl e
               | Inr c \<Rightarrow> resolvePointer_const asserts c remainer)))"
  by pat_completeness auto
termination
  by (relation "measure (\<lambda>(asserts, n, pointer). length pointer)")
     (auto simp: pointer_remainer_shorter)

declare resolvePointer_const.simps [simp del]

text \<open>The template at \<^verbatim>\<open>JsonNode\<close> (mutable). The result is the node afterwards and what
  the call returns: the node the returned reference points to, or the error thrown; a node
  that was changed before the throw stays changed. \<^verbatim>\<open>map_store\<close> and the list update write
  the child back after the recursive call has changed it through its reference.\<close>

definition map_store :: "(string \<times> 'n) list \<Rightarrow> string \<Rightarrow> 'n \<Rightarrow> (string \<times> 'n) list" where
  "map_store mp k c = map (\<lambda>(k', v). if k' = k then (k', c) else (k', v)) mp"

function resolvePointer_mut ::
  "'f double_ops \<Rightarrow> bool \<Rightarrow> 'f JsonNode \<Rightarrow> string \<Rightarrow> 'f JsonNode \<times> (error + 'f JsonNode)" where
  "resolvePointer_mut ops asserts n pointer =
     (if pointer = [] then (n, Inr n)
      else if asserts \<and> pointer ! 0 \<noteq> CHR ''/'' then (n, Inl AssertionFailed)
      else
        (let entry = pointer_entry pointer;
             remainer = pointer_remainer pointer
         in if getType n = DATA_VECTOR
            then
              (if list_ex (\<lambda>c. \<not> is_digit c) entry then (n, Inl InvalidPointer)
               else if length entry > 1 \<and> entry ! 0 = CHR ''0'' then (n, Inl InvalidPointer)
               else
                 (case lexical_cast_size_t entry of
                    None \<Rightarrow> (n, Inl BadLexicalCast)
                  | Some index \<Rightarrow>
                     (let (n1, v) = Vector_mut ops n
                      in if length v > unat index
                         then
                           (let (c', r) = resolvePointer_mut ops asserts (v ! unat index) remainer
                            in (JsonNode (VectorV (v[unat index := c'])) (meta n1) (flags n1), r))
                         else
                           (let (n2, c) = subscript_key ops n1 entry;
                                (c', r) = resolvePointer_mut ops asserts c remainer
                            in (JsonNode (MapV (map_store (snd (Struct_mut ops n2)) entry c'))
                                  (meta n2) (flags n2), r)))))
            else
              (let (n2, c) = subscript_key ops n entry;
                   (c', r) = resolvePointer_mut ops asserts c remainer
               in (JsonNode (MapV (map_store (snd (Struct_mut ops n2)) entry c'))
                     (meta n2) (flags n2), r))))"
  by pat_completeness auto
termination
  by (relation "measure (\<lambda>(ops, asserts, n, pointer). length pointer)")
     (auto simp: pointer_remainer_shorter)

declare resolvePointer_mut.simps [simp del]

section \<open>The writer (lib/json/JsonWriter.cpp)\<close>

text \<open>Modelled from the spec: the header JsonWriter.h, which declares the fields, is not
  among the sources. The state of a pass is "an output sink, a \<^verbatim>\<open>compact\<close> mode flag requested
  by the caller, a \<^verbatim>\<open>compactMode\<close> flag, and an indentation prefix". The sink is the text
  written so far.\<close>

record JsonWriter =
  prefix :: string
  out :: string
  compact :: bool
  compactMode :: bool

definition put :: "JsonWriter \<Rightarrow> string \<Rightarrow> JsonWriter" where
  "put w s = w\<lparr>out := out w @ s\<rparr>"

subsection \<open>writeString\<close>

text \<open>The two tables of \<^verbatim>\<open>writeString\<close>: the raw characters quote, backslash, backspace,
  form feed, newline, carriage return, tab and slash, and the code of each.\<close>

definition escaped :: string where
  "escaped = [CHR 0x22, CHR 0x5C, CHR 0x08, CHR 0x0C, CHR 0x0A, CHR 0x0D, CHR 0x09, CHR 0x2F]"

definition escaped_code :: string where
  "escaped_code = [CHR 0x22, CHR 0x5C, CHR ''b'', CHR ''f'', CHR ''n'', CHR ''r'', CHR ''t'', CHR 0x2F]"

text \<open>The \<^verbatim>\<open>for\<close> loop, from the state (\<^verbatim>\<open>pos\<close>, \<^verbatim>\<open>start\<close>, sink) to the state at its
  exit. In the first branch the body increments \<^verbatim>\<open>pos\<close> and the loop header increments it
  again.\<close>

function writeString_loop :: "string \<Rightarrow> nat \<Rightarrow> nat \<Rightarrow> string \<Rightarrow> nat \<times> nat \<times> string" where
  "writeString_loop s pos start sink =
     (if pos < length s
      then
        (if s ! pos = CHR 0x5C \<and> pos + 1 < length s \<and> s ! (pos + 1) \<in> set escaped_code
         then writeString_loop s (pos + 1 + 1) start sink
         else
           (case find_char escaped (s ! pos) 0 of
              Some escapedPos \<Rightarrow>
                writeString_loop s (pos + 1) (pos + 1)
                  (sink @ substr s start (pos - start) @ [CHR 0x5C, escaped_code ! escapedPos])
            | None \<Rightarrow> writeString_loop s (pos + 1) start sink))
      else (pos, start, sink))"
  by pat_completeness auto
termination
  by (relation "measure (\<lambda>(s, pos, start, sink). length s - pos)") auto

declare writeString_loop.simps [simp del]

definition writeString :: "JsonWriter \<Rightarrow> string \<Rightarrow> JsonWriter" where
  "writeString w s =
     (let w1 = put w [CHR 0x22];
          (pos, start, sink) = writeString_loop s 0 0 (out w1);
          w2 = w1\<lparr>out := sink @ substr s start (pos - start)\<rparr>
      in put w2 [CHR 0x22])"

subsection \<open>writeContainer, writeEntry, writeNode\<close>

text \<open>\<^verbatim>\<open>boost::algorithm::join\<close>.\<close>

fun join :: "string list \<Rightarrow> string \<Rightarrow> string" where
  "join [] sep = []"
| "join [x] sep = x"
| "join (x # y # r) sep = x @ sep @ join (y # r) sep"

text \<open>The template \<^verbatim>\<open>writeContainer\<close> over the entries from \<^verbatim>\<open>begin\<close> to \<^verbatim>\<open>end\<close>; the
  overload of \<^verbatim>\<open>writeEntry\<close> that the iterator type selects is its first argument.\<close>

fun writeContainer ::
  "(JsonWriter \<Rightarrow> 'e \<Rightarrow> JsonWriter) \<Rightarrow> JsonWriter \<Rightarrow> 'e list \<Rightarrow> JsonWriter" where
  "writeContainer writeEntry w [] = w"
| "writeContainer writeEntry w (e # es) =
     (let w1 = w\<lparr>prefix := prefix w @ [CHR 0x09]\<rparr>;
          w2 = writeEntry w1 e;
          w3 = foldl (\<lambda>wi ei.
                 writeEntry (put wi (if compactMode wi then '', '' else [CHR '','', CHR 0x0A])) ei)
                 w2 es;
          w4 = put w3 (if compactMode w3 then [] else [CHR 0x0A])
      in w4\<lparr>prefix := butlast (prefix w4)\<rparr>)"

lemma writeContainer_cong [fundef_cong]:
  assumes "w = w'" and "es = es'"
    and "\<And>wi e. e \<in> set es' \<Longrightarrow> f wi e = g wi e"
  shows "writeContainer f w es = writeContainer g w' es'"
proof (cases es')
  case Nil
  with assms show ?thesis by simp
next
  case (Cons e r)
  have "foldl (\<lambda>wi ei. f (put wi (if compactMode wi then '', '' else [CHR '','', CHR 0x0A])) ei) w0 r
      = foldl (\<lambda>wi ei. g (put wi (if compactMode wi then '', '' else [CHR '','', CHR 0x0A])) ei) w0 r"
    for w0
    using assms(3) Cons by (intro foldl_cong) auto
  with assms Cons show ?thesis by (simp add: Let_def)
qed

text \<open>The comment lines and the indentation that both overloads of \<^verbatim>\<open>writeEntry\<close> write
  before an entry whose node is \<^verbatim>\<open>e\<close>.\<close>

definition writeEntry_head :: "JsonWriter \<Rightarrow> 'f JsonNode \<Rightarrow> JsonWriter" where
  "writeEntry_head w e =
     (if \<not> compactMode w
      then
        (let w1 = (if meta e \<noteq> [] then put w (prefix w @ '' // '' @ meta e @ [CHR 0x0A]) else w);
             w2 = (if flags e \<noteq> []
                   then put w1 (prefix w1 @ '' // flags: '' @ join (flags e) '', '' @ [CHR 0x0A])
                   else w1)
         in put w2 (prefix w2))
      else w)"

text \<open>\<^verbatim>\<open>operator<<(std::ostream &, si64)\<close>: the decimal digits, after a minus sign for a
  negative number.\<close>

function show_nat :: "nat \<Rightarrow> string" where
  "show_nat k =
     (if k < 10 then [''0123456789'' ! k]
      else show_nat (k div 10) @ [''0123456789'' ! (k mod 10)])"
  by pat_completeness auto
termination
  by (relation "measure id") auto

declare show_nat.simps [simp del]

definition put_si64 :: "si64 \<Rightarrow> string" where
  "put_si64 i = (if sint i < 0 then CHR ''-'' # show_nat (nat (- sint i)) else show_nat (nat (sint i)))"

fun writeNode :: "'f double_ops \<Rightarrow> JsonWriter \<Rightarrow> 'f JsonNode \<Rightarrow> JsonWriter" where
  "writeNode ops w (JsonNode d m fl) =
     (let originalMode = compactMode w;
          w0 = (if compact w \<and> \<not> compactMode w \<and> isCompact (JsonNode d m fl)
                then w\<lparr>compactMode := True\<rparr> else w);
          w9 =
            (case d of
               Monostate \<Rightarrow> put w0 ''null''
             | BoolV b \<Rightarrow> if b then put w0 ''true'' else put w0 ''false''
             | DoubleV x \<Rightarrow> put w0 (put_double ops x)
             | StringV s \<Rightarrow> writeString w0 s
             | VectorV v \<Rightarrow>
                (let w1 = put w0 (''['' @ (if compactMode w0 then '' '' else [CHR 0x0A]));
                     w2 = writeContainer (\<lambda>wi e. writeNode ops (writeEntry_head wi e) e) w1 v
                 in put w2 ((if compactMode w2 then '' '' else prefix w2) @ '']''))
             | MapV mp \<Rightarrow>
                (let w1 = put w0 (''{'' @ (if compactMode w0 then '' '' else [CHR 0x0A]));
                     w2 = writeContainer
                            (\<lambda>wi (k, e).
                               writeNode ops (put (writeString (writeEntry_head wi e) k) '' : '') e)
                            w1 mp
                 in put w2 ((if compactMode w2 then '' '' else prefix w2) @ ''}''))
             | Si64V i \<Rightarrow> put w0 (put_si64 i))
      in w9\<lparr>compactMode := originalMode\<rparr>)"

text \<open>Modelled from the spec: the constructor \<^verbatim>\<open>JsonWriter(std::ostream &, bool)\<close> sets
  \<^verbatim>\<open>out\<close> and \<^verbatim>\<open>compact\<close> only, and the initial values of the two other fields stand in
  the missing header JsonWriter.h. \<^verbatim>\<open>compactMode\<close> "can be entered" per subtree, so it starts
  inactive; the prefix is "one tab character per nesting level", so it starts empty. The stream
  of \<^verbatim>\<open>toJson\<close> is a new \<^verbatim>\<open>std::ostringstream\<close>.\<close>

definition JsonWriter_new :: "string \<Rightarrow> bool \<Rightarrow> JsonWriter" where
  "JsonWriter_new output compact' =
     \<lparr>prefix = [], out = output, compact = compact', compactMode = False\<rparr>"

text \<open>\<^verbatim>\<open>JsonNode::toJson\<close>.\<close>

definition toJson :: "'f double_ops \<Rightarrow> 'f JsonNode \<Rightarrow> bool \<Rightarrow> string" where
  "toJson ops n compact' = out (writeNode ops (JsonWriter_new [] compact') n)"

section \<open>Definitions that state the claims\<close>

text \<open>The string escaping in the words of the specification: a table from each raw character
  to its code; a backslash directly before one of the codes is copied with it and the scan
  goes on after the pair; any other character of the table becomes backslash and code; every
  other character is copied.\<close>

definition escape_table :: "(char \<times> char) list" where
  "escape_table =
     [(CHR 0x22, CHR 0x22), (CHR 0x5C, CHR 0x5C), (CHR 0x08, CHR ''b''), (CHR 0x0C, CHR ''f''),
      (CHR 0x0A, CHR ''n''), (CHR 0x0D, CHR ''r''), (CHR 0x09, CHR ''t''), (CHR 0x2F, CHR 0x2F)]"

definition escape_char :: "char \<Rightarrow> string" where
  "escape_char c = (case map_of escape_table c of Some e \<Rightarrow> [CHR 0x5C, e] | None \<Rightarrow> [c])"

fun escape_spec :: "string \<Rightarrow> string" where
  "escape_spec [] = []"
| "escape_spec [c] = escape_char c"
| "escape_spec (c # d # cs) =
     (if c = CHR 0x5C \<and> d \<in> snd ` set escape_table then c # d # escape_spec cs
      else escape_char c @ escape_spec (d # cs))"

section \<open>The primitives of double (IEEE 754 binary64)\<close>

text \<open>A double is its 64 bits: the sign in bit 63, the biased exponent in bits 62 to 52, the
  fraction in bits 51 to 0. An exponent field of 2047 is an infinity or a NaN; every other
  pattern is a finite number, \<^verbatim>\<open>double_value\<close>: plus or minus the significand times two
  to the exponent, where a subnormal (exponent field 0) has no hidden bit.\<close>

datatype double = Double (binary64: "64 word")

definition sign_bit :: "double \<Rightarrow> bool" where
  "sign_bit x = (2 ^ 63 \<le> unat (binary64 x))"

definition exponent_field :: "double \<Rightarrow> nat" where
  "exponent_field x = (unat (binary64 x) div 2 ^ 52) mod 2 ^ 11"

definition fraction_field :: "double \<Rightarrow> nat" where
  "fraction_field x = unat (binary64 x) mod 2 ^ 52"

definition is_finite :: "double \<Rightarrow> bool" where
  "is_finite x = (exponent_field x \<noteq> 2047)"

definition significand :: "double \<Rightarrow> nat" where
  "significand x =
     (if exponent_field x = 0 then fraction_field x else 2 ^ 52 + fraction_field x)"

definition exponent :: "double \<Rightarrow> int" where
  "exponent x = (if exponent_field x = 0 then - 1074 else int (exponent_field x) - 1075)"

definition double_value :: "double \<Rightarrow> rat" where
  "double_value x =
     (if sign_bit x then - 1 else 1) * of_nat (significand x)
       * (if 0 \<le> exponent x then 2 ^ nat (exponent x) else 1 / 2 ^ nat (- exponent x))"

text \<open>\<^verbatim>\<open>static_cast<si64>(double)\<close>. C++ (conv.fpint): the conversion truncates, that is,
  the fractional part is discarded; the behaviour is undefined if the truncated value cannot be
  represented in the destination type. An infinity and a NaN have no truncated value.\<close>

definition trunc_toward_zero :: "rat \<Rightarrow> int" where
  "trunc_toward_zero q = (if 0 \<le> q then \<lfloor>q\<rfloor> else \<lceil>q\<rceil>)"

definition static_cast_si64 :: "double \<Rightarrow> si64 option" where
  "static_cast_si64 x =
     (if is_finite x
      then
        (let t = trunc_toward_zero (double_value x)
         in if - (2 ^ 63) \<le> t \<and> t < 2 ^ 63 then Some (word_of_int t) else None)
      else None)"

text \<open>\<^verbatim>\<open>static_cast<double>(si64)\<close>: the integer itself where a double can hold it, else
  the nearer of the two doubles around it, the one with the even significand at a tie (the
  default rounding of IEEE arithmetic). \<^verbatim>\<open>encode\<close> builds the bits of a normal number from
  the sign, the exponent field and the fraction.\<close>

definition encode :: "bool \<Rightarrow> nat \<Rightarrow> nat \<Rightarrow> double" where
  "encode s ef fr = Double (of_nat ((if s then 2 ^ 63 else 0) + ef * 2 ^ 52 + fr))"

definition round_half_even :: "nat \<Rightarrow> nat \<Rightarrow> nat" where
  "round_half_even a k =
     (let q = a div 2 ^ k; r = a mod 2 ^ k
      in if 2 ^ k < 2 * r \<or> (2 * r = 2 ^ k \<and> odd q) then q + 1 else q)"

definition double_of_int :: "int \<Rightarrow> double" where
  "double_of_int i =
     (let a = nat \<bar>i\<bar>; n = nat (bitlen \<bar>i\<bar>)
      in if a = 0 then Double 0
         else if n \<le> 53 then encode (i < 0) (n + 1022) (a * 2 ^ (53 - n) - 2 ^ 52)
         else
           (let k = n - 53; q = round_half_even a k
            in if q = 2 ^ 53 then encode (i < 0) (k + 1 + 1075) 0
               else encode (i < 0) (k + 1075) (q - 2 ^ 52)))"

definition static_cast_double :: "si64 \<Rightarrow> double" where
  "static_cast_double i = double_of_int (sint i)"

text \<open>The primitives on IEEE doubles: the two casts and the literal 0.0, which is the pattern
  of all bits zero. How a double is printed is the argument \<^verbatim>\<open>printer\<close>.\<close>

definition ieee_ops :: "(double \<Rightarrow> string) \<Rightarrow> double double_ops" where
  "ieee_ops printer =
     \<lparr>cast_si64 = static_cast_si64,
      cast_double = static_cast_double,
      double_zero = Double 0,
      put_double = printer\<rparr>"

section \<open>Verification\<close>

subsection \<open>Facts about the definitions\<close>

lemma getType_simps [simp]:
  "getType (JsonNode Monostate m fl) = DATA_NULL"
  "getType (JsonNode (BoolV b) m fl) = DATA_BOOL"
  "getType (JsonNode (DoubleV x) m fl) = DATA_FLOAT"
  "getType (JsonNode (StringV s) m fl) = DATA_STRING"
  "getType (JsonNode (VectorV v) m fl) = DATA_VECTOR"
  "getType (JsonNode (MapV mp) m fl) = DATA_STRUCT"
  "getType (JsonNode (Si64V i) m fl) = DATA_INTEGER"
  by (simp_all add: getType_def)

text \<open>\<^verbatim>\<open>setType\<close> returns a node of the new type, with the metadata and the flags of the
  old one, wherever it does not cast a float to an integer.\<close>

lemma setType_no_cast:
  assumes "t \<noteq> DATA_INTEGER \<or> getType n \<noteq> DATA_FLOAT"
  shows "\<exists>d. setType ops t n = Inr (JsonNode d (meta n) (flags n)) \<and> getType (JsonNode d (meta n) (flags n)) = t"
proof -
  obtain d m fl where n: "n = JsonNode d m fl" by (cases n)
  show ?thesis using assms unfolding n by (cases d; cases t) simp_all
qed

subsection \<open>The primitives of double\<close>

text \<open>The floor and the ceiling of a quotient of numerals, to evaluate the truncation on
  given bits.\<close>

lemma floor_rat_numeral:
  "\<lfloor>(numeral a :: rat) / numeral b\<rfloor> = numeral a div numeral b"
  by (metis floor_divide_of_int_eq of_int_numeral)

lemma ceiling_rat_numeral:
  "\<lceil>- ((numeral a :: rat) / numeral b)\<rceil> = - (numeral a div numeral b)"
  by (simp only: ceiling_minus floor_rat_numeral)

text \<open>The three fields of the bits that \<^verbatim>\<open>encode\<close> builds, and the number they stand
  for.\<close>

lemma mult_add_less:
  fixes a b A P :: nat
  assumes "a < A" and "b < P"
  shows "a * P + b < A * P"
proof -
  have "a * P + b < (a + 1) * P" using assms(2) by simp
  also have "\<dots> \<le> A * P" using assms(1) by (intro mult_le_mono1) simp
  finally show ?thesis .
qed

lemma decode_encode:
  assumes "ef < 2047" and "fr < 2 ^ 52"
  shows "sign_bit (encode s ef fr) = s"
    and "exponent_field (encode s ef fr) = ef"
    and "fraction_field (encode s ef fr) = fr"
proof -
  define P :: nat where "P = 2 ^ 52"
  define h :: nat where "h = (if s then 2 ^ 11 else 0)"
  define n :: nat where "n = (h + ef) * P + fr"
  have P: "0 < P" "fr < P" using assms(2) by (simp_all add: P_def)
  have n_alt: "(if s then 2 ^ 63 else 0) + ef * 2 ^ 52 + fr = n"
    by (simp add: n_def h_def P_def algebra_simps)
  have "h + ef < 2 ^ 12" using assms(1) by (simp add: h_def)
  then have "n < 2 ^ 12 * P" unfolding n_def using P(2) by (rule mult_add_less)
  then have n64: "n < 2 ^ 64" by (simp add: P_def)
  have "encode s ef fr = Double (of_nat n)"
    unfolding encode_def n_alt ..
  then have u: "unat (binary64 (encode s ef fr)) = n"
    using n64 by (simp add: unsigned_of_nat take_bit_nat_eq_self)
  have "n div P = h + ef" using P by (simp add: n_def)
  then have d: "n div 4503599627370496 = h + ef" by (simp add: P_def)
  have "n mod P = fr" using P by (simp add: n_def)
  then have m: "n mod 4503599627370496 = fr" by (simp add: P_def)
  show "exponent_field (encode s ef fr) = ef"
    using assms(1) by (simp add: exponent_field_def u d h_def)
  show "fraction_field (encode s ef fr) = fr"
    by (simp add: fraction_field_def u m)
  show "sign_bit (encode s ef fr) = s"
  proof (cases s)
    case True
    then have "2 ^ 11 * P \<le> n" by (simp add: n_def h_def add_mult_distrib)
    then have "2 ^ 63 \<le> n" by (simp add: P_def)
    then show ?thesis unfolding sign_bit_def u using True by simp
  next
    case False
    have "ef < 2 ^ 11" using assms(1) by simp
    then have "ef * P + fr < 2 ^ 11 * P" using P(2) by (rule mult_add_less)
    with False have "n < 2 ^ 63" by (simp add: n_def h_def P_def)
    then show ?thesis unfolding sign_bit_def u using False by simp
  qed
qed

lemma double_value_encode:
  assumes "0 < ef" and "ef < 2047" and "fr < 2 ^ 52"
  shows "is_finite (encode s ef fr)"
    and "double_value (encode s ef fr)
           = (if s then - 1 else 1) * of_nat (2 ^ 52 + fr)
               * (if 1075 \<le> ef then 2 ^ (ef - 1075) else 1 / 2 ^ (1075 - ef))"
proof -
  note de = decode_encode [OF assms(2,3), of s]
  show "is_finite (encode s ef fr)" using assms(2) by (simp add: is_finite_def de)
  have e: "exponent (encode s ef fr) = int ef - 1075"
    using assms(1) by (simp add: exponent_def de)
  have n1: "nat (int ef - 1075) = ef - 1075" by simp
  have n2: "nat (- (int ef - 1075)) = 1075 - ef" by simp
  show "double_value (encode s ef fr)
           = (if s then - 1 else 1) * of_nat (2 ^ 52 + fr)
               * (if 1075 \<le> ef then 2 ^ (ef - 1075) else 1 / 2 ^ (1075 - ef))"
    using assms(1) unfolding double_value_def e n1 n2 by (simp add: significand_def de)
qed

text \<open>An integer below \<^verbatim>\<open>2 ^ 53\<close> in absolute value is cast to the double of the same
  value. A greater one, up to \<^verbatim>\<open>2 ^ 63\<close>, is cast to a double that differs from it by at
  most the fraction \<^verbatim>\<open>1 / 2 ^ 53\<close> of its absolute value (half a unit in the last place of
  the significand).\<close>

lemma double_of_int_exact_small:
  assumes "i \<noteq> 0" and "\<bar>i\<bar> < 2 ^ 53"
  shows "is_finite (double_of_int i) \<and> double_value (double_of_int i) = of_int i"
proof -
  define a where "a = nat \<bar>i\<bar>"
  define n where "n = nat (bitlen \<bar>i\<bar>)"
  have apos: "0 < \<bar>i\<bar>" using assms(1) by simp
  from bitlen_bounds [OF apos] have bb: "2 ^ nat (bitlen \<bar>i\<bar> - 1) \<le> \<bar>i\<bar>" "\<bar>i\<bar> < 2 ^ nat (bitlen \<bar>i\<bar>)"
    by simp_all
  have bl1: "1 \<le> bitlen \<bar>i\<bar>" using apos by (simp add: bitlen_alt_def)
  then have n1: "1 \<le> n" and nm: "nat (bitlen \<bar>i\<bar> - 1) = n - 1" by (simp_all add: n_def)
  have lo: "2 ^ (n - 1) \<le> a"
  proof -
    have "int (2 ^ (n - 1)) \<le> int a" using bb(1) by (simp add: nm a_def)
    then show ?thesis by (simp only: of_nat_le_iff)
  qed
  have hi: "a < 2 ^ n"
  proof -
    have "int a < int (2 ^ n)" using bb(2) by (simp add: n_def a_def)
    then show ?thesis by (simp only: of_nat_less_iff)
  qed
  have a53: "a < 2 ^ 53"
  proof -
    have "int a < int (2 ^ 53)" using assms(2) by (simp add: a_def)
    then show ?thesis by (simp only: of_nat_less_iff)
  qed
  have n53: "n \<le> 53"
  proof (rule ccontr)
    assume "\<not> n \<le> 53"
    then have "53 \<le> n - 1" by simp
    then have "(2::nat) ^ 53 \<le> 2 ^ (n - 1)" by (intro power_increasing) simp_all
    with lo a53 show False by simp
  qed
  define M where "M = a * 2 ^ (53 - n)"
  have "2 ^ (n - 1) * 2 ^ (53 - n) \<le> M" unfolding M_def using lo by (intro mult_le_mono1)
  moreover have "(2::nat) ^ (n - 1) * 2 ^ (53 - n) = 2 ^ 52"
    using n1 n53 by (simp flip: power_add)
  ultimately have Mlo: "2 ^ 52 \<le> M" by simp
  have "M < 2 ^ n * 2 ^ (53 - n)" unfolding M_def using hi by (intro mult_less_mono1) simp_all
  moreover have "(2::nat) ^ n * 2 ^ (53 - n) = 2 ^ 53" using n53 by (simp flip: power_add)
  ultimately have Mhi: "M < 2 ^ 53" by simp
  have fr: "M - 2 ^ 52 < 2 ^ 52" using Mhi by simp
  have ef: "0 < n + 1022" "n + 1022 < 2047" using n53 by simp_all
  have "a \<noteq> 0" using assms(1) by (simp add: a_def)
  then have doi: "double_of_int i = encode (i < 0) (n + 1022) (M - 2 ^ 52)"
    using n53 by (simp add: double_of_int_def Let_def a_def [symmetric] n_def [symmetric] M_def)
  have fin: "is_finite (double_of_int i)"
    unfolding doi by (rule double_value_encode(1) [OF ef fr])
  have "double_value (double_of_int i)
          = (if i < 0 then - 1 else 1) * of_nat (2 ^ 52 + (M - 2 ^ 52)) * (1 / 2 ^ (53 - n))"
    unfolding doi double_value_encode(2) [OF ef fr] using n53
    by (cases "n = 53") simp_all
  also have "2 ^ 52 + (M - 2 ^ 52) = M" using Mlo by simp
  also have "(of_nat M :: rat) = of_nat a * 2 ^ (53 - n)" by (simp add: M_def)
  finally have "double_value (double_of_int i) = (if i < 0 then - 1 else 1) * of_nat a"
    by simp
  also have "\<dots> = of_int i" by (simp add: a_def)
  finally show ?thesis using fin by simp
qed

lemma double_of_int_round:
  assumes "2 ^ 53 \<le> \<bar>i\<bar>" and "\<bar>i\<bar> \<le> 2 ^ 63"
  shows "is_finite (double_of_int i)
       \<and> \<bar>double_value (double_of_int i) - of_int i\<bar> * 2 ^ 53 \<le> \<bar>of_int i\<bar>"
proof -
  define a where "a = nat \<bar>i\<bar>"
  define n where "n = nat (bitlen \<bar>i\<bar>)"
  have apos: "0 < \<bar>i\<bar>" using assms(1) by simp
  from bitlen_bounds [OF apos] have bb: "2 ^ nat (bitlen \<bar>i\<bar> - 1) \<le> \<bar>i\<bar>" "\<bar>i\<bar> < 2 ^ nat (bitlen \<bar>i\<bar>)"
    by simp_all
  have bl1: "1 \<le> bitlen \<bar>i\<bar>" using apos by (simp add: bitlen_alt_def)
  then have n1: "1 \<le> n" and nm: "nat (bitlen \<bar>i\<bar> - 1) = n - 1" by (simp_all add: n_def)
  have ia: "\<bar>i\<bar> = int a" by (simp add: a_def)
  have lo: "2 ^ (n - 1) \<le> a"
  proof -
    have "int (2 ^ (n - 1)) \<le> int a" using bb(1) by (simp add: nm a_def)
    then show ?thesis by (simp only: of_nat_le_iff)
  qed
  have hi: "a < 2 ^ n"
  proof -
    have "int a < int (2 ^ n)" using bb(2) by (simp add: n_def a_def)
    then show ?thesis by (simp only: of_nat_less_iff)
  qed
  have a53: "2 ^ 53 \<le> a"
  proof -
    have "int (2 ^ 53) \<le> int a" using assms(1) by (simp add: a_def)
    then show ?thesis by (simp only: of_nat_le_iff)
  qed
  have a63: "a \<le> 2 ^ 63"
  proof -
    have "int a \<le> int (2 ^ 63)" using assms(2) by (simp add: a_def)
    then show ?thesis by (simp only: of_nat_le_iff)
  qed
  have n54: "53 < n"
  proof (rule ccontr)
    assume "\<not> 53 < n"
    then have "(2::nat) ^ n \<le> 2 ^ 53" by (intro power_increasing) simp_all
    with hi a53 show False by simp
  qed
  have n64: "n \<le> 64"
  proof (rule ccontr)
    assume "\<not> n \<le> 64"
    then have "64 \<le> n - 1" by simp
    then have "(2::nat) ^ 64 \<le> 2 ^ (n - 1)" by (intro power_increasing) simp_all
    with lo a63 show False by simp
  qed
  define k where "k = n - 53"
  have k: "1 \<le> k" "k \<le> 11" "n = 53 + k" "n - 1 = 52 + k" using n54 n64 by (simp_all add: k_def)
  define q0 where "q0 = a div 2 ^ k"
  define r where "r = a mod 2 ^ k"
  define q where "q = round_half_even a k"
  have a_split: "a = q0 * 2 ^ k + r" unfolding q0_def r_def by (rule div_mult_mod_eq [symmetric])
  have r_lt: "r < 2 ^ k" by (simp add: r_def)
  have pl: "(2::nat) ^ (n - 1) = 2 ^ 52 * 2 ^ k" by (simp only: k(4) power_add)
  have ph: "(2::nat) ^ n = 2 ^ 53 * 2 ^ k" by (simp only: k(3) power_add)
  have q0lo: "2 ^ 52 \<le> q0"
  proof -
    have "2 ^ 52 * 2 ^ k \<le> a" using lo unfolding pl .
    then have "(2 ^ 52 * 2 ^ k) div 2 ^ k \<le> a div 2 ^ k" by (rule div_le_mono)
    then show ?thesis by (simp add: q0_def)
  qed
  have q0hi: "q0 < 2 ^ 53"
  proof -
    have "a < 2 ^ 53 * 2 ^ k" using hi unfolding ph .
    then show ?thesis unfolding q0_def by (simp add: less_mult_imp_div_less)
  qed
  have q_cases: "(q = q0 \<and> 2 * r \<le> 2 ^ k) \<or> (q = q0 + 1 \<and> 2 ^ k \<le> 2 * r)"
    unfolding q_def round_half_even_def Let_def q0_def [symmetric] r_def [symmetric] by auto
  then have qlo: "2 ^ 52 \<le> q" and qhi: "q \<le> 2 ^ 53" using q0lo q0hi by auto
  have err: "2 * \<bar>int q * 2 ^ k - int a\<bar> \<le> 2 ^ k"
  proof -
    from q_cases show ?thesis
    proof
      assume c: "q = q0 \<and> 2 * r \<le> 2 ^ k"
      then have "int q * 2 ^ k - int a = - int r" by (simp add: a_split)
      moreover have "2 * int r \<le> 2 ^ k" using c by (metis of_nat_le_iff of_nat_mult of_nat_numeral of_nat_power)
      ultimately show ?thesis by simp
    next
      assume c: "q = q0 + 1 \<and> 2 ^ k \<le> 2 * r"
      then have "int q * 2 ^ k - int a = 2 ^ k - int r" by (simp add: a_split algebra_simps)
      moreover have "int r < 2 ^ k" using r_lt by (metis of_nat_less_iff of_nat_numeral of_nat_power)
      moreover have "2 ^ k \<le> 2 * int r" using c by (metis of_nat_le_iff of_nat_mult of_nat_numeral of_nat_power)
      ultimately show ?thesis by simp
    qed
  qed
  have val: "is_finite (double_of_int i)
           \<and> double_value (double_of_int i) = (if i < 0 then - 1 else 1) * (of_nat q * 2 ^ k)"
  proof (cases "q = 2 ^ 53")
    case True
    have doi: "double_of_int i = encode (i < 0) (k + 1 + 1075) 0"
      using a53 n54 True
      by (simp add: double_of_int_def Let_def a_def [symmetric] n_def [symmetric] k_def [symmetric] q_def [symmetric])
    have ef: "0 < k + 1 + 1075" "k + 1 + 1075 < 2047" using k by simp_all
    have fr: "(0::nat) < 2 ^ 52" by simp
    show ?thesis
      unfolding doi using double_value_encode [OF ef fr, of "i < 0"] True by simp
  next
    case False
    with qhi have q53: "q < 2 ^ 53" by simp
    have doi: "double_of_int i = encode (i < 0) (k + 1075) (q - 2 ^ 52)"
      using a53 n54 False
      by (simp add: double_of_int_def Let_def a_def [symmetric] n_def [symmetric] k_def [symmetric] q_def [symmetric])
    have ef: "0 < k + 1075" "k + 1075 < 2047" using k by simp_all
    have fr: "q - 2 ^ 52 < 2 ^ 52" using q53 by simp
    have "2 ^ 52 + (q - 2 ^ 52) = q" using qlo by simp
    then show ?thesis
      unfolding doi using double_value_encode [OF ef fr, of "i < 0"] by simp
  qed
  have "\<bar>double_value (double_of_int i) - of_int i\<bar> = \<bar>(of_nat q * 2 ^ k :: rat) - of_nat a\<bar>"
  proof (cases "i < 0")
    case True
    then have "of_int i = - (of_nat a :: rat)" by (simp add: a_def)
    with val True show ?thesis by (simp add: abs_minus_commute)
  next
    case False
    then have "of_int i = (of_nat a :: rat)" by (simp add: a_def)
    with val False show ?thesis by simp
  qed
  also have "\<dots> = of_int \<bar>int q * 2 ^ k - int a\<bar>" by simp
  finally have e1: "\<bar>double_value (double_of_int i) - of_int i\<bar> = of_int \<bar>int q * 2 ^ k - int a\<bar>" .
  have "2 * \<bar>int q * 2 ^ k - int a\<bar> * 2 ^ 52 \<le> 2 ^ k * 2 ^ 52"
    using err by (intro mult_right_mono) simp_all
  also have "(2::int) ^ k * 2 ^ 52 \<le> int a"
  proof -
    have "int (2 ^ 52 * 2 ^ k) \<le> int a" using lo unfolding pl by (simp only: of_nat_le_iff)
    then show ?thesis by (simp add: mult.commute)
  qed
  finally have "\<bar>int q * 2 ^ k - int a\<bar> * 2 ^ 53 \<le> int a" by simp
  then have "(of_int (\<bar>int q * 2 ^ k - int a\<bar> * 2 ^ 53) :: rat) \<le> of_int (int a)"
    by (simp only: of_int_le_iff)
  then have "\<bar>double_value (double_of_int i) - of_int i\<bar> * 2 ^ 53 \<le> (of_int \<bar>i\<bar> :: rat)"
    by (simp add: e1 ia)
  with val show ?thesis by simp
qed

lemma sint_word_of_int:
  "- (2 ^ 63) \<le> t \<Longrightarrow> t < 2 ^ 63 \<Longrightarrow> sint (word_of_int t :: si64) = t"
  by (simp add: signed_of_int signed_take_bit_int_eq_self)

lemma static_cast_si64_trunc:
  assumes "is_finite x"
    and "- (2 ^ 63) \<le> trunc_toward_zero (double_value x)"
    and "trunc_toward_zero (double_value x) < 2 ^ 63"
  shows "static_cast_si64 x = Some (word_of_int (trunc_toward_zero (double_value x)))"
  using assms by (simp add: static_cast_si64_def Let_def)

lemma double_zero_value: "is_finite (Double 0) \<and> double_value (Double 0) = 0"
  by (simp add: is_finite_def exponent_field_def double_value_def significand_def fraction_field_def)

lemma double_of_int_2_53:
  "double_of_int (2 ^ 53) = encode False 1076 0"
  "double_of_int (- (2 ^ 53)) = encode True 1076 0"
  by (simp_all add: double_of_int_def Let_def compute_bitlen round_half_even_def)

text \<open>\<^verbatim>\<open>static_cast<double>\<close> on every si64: the result is finite, within that bound of
  the integer, and the integer itself up to \<^verbatim>\<open>2 ^ 53\<close> in absolute value.\<close>

lemma static_cast_double_value:
  "is_finite (static_cast_double i)
   \<and> \<bar>double_value (static_cast_double i) - of_int (sint i)\<bar> * 2 ^ 53 \<le> \<bar>of_int (sint i)\<bar>
   \<and> (\<bar>sint i\<bar> \<le> 2 ^ 53 \<longrightarrow> double_value (static_cast_double i) = of_int (sint i))"
proof -
  define j where "j = sint i"
  have r: "- (2 ^ 63) \<le> j" "j < 2 ^ 63"
    using sint_ge [of i] sint_lt [of i] by (simp_all add: j_def)
  have d: "static_cast_double i = double_of_int j" by (simp add: static_cast_double_def j_def)
  consider (zero) "j = 0" | (small) "j \<noteq> 0" "\<bar>j\<bar> < 2 ^ 53" | (edge) "\<bar>j\<bar> = 2 ^ 53"
    | (large) "2 ^ 53 < \<bar>j\<bar>" by linarith
  then have "is_finite (double_of_int j)
   \<and> \<bar>double_value (double_of_int j) - of_int j\<bar> * 2 ^ 53 \<le> \<bar>of_int j\<bar>
   \<and> (\<bar>j\<bar> \<le> 2 ^ 53 \<longrightarrow> double_value (double_of_int j) = of_int j)"
  proof cases
    case zero
    then have "double_of_int j = Double 0" by (simp add: double_of_int_def)
    with zero double_zero_value show ?thesis by simp
  next
    case small
    from double_of_int_exact_small [OF small] show ?thesis by simp
  next
    case edge
    have ef: "(0::nat) < 1076" "(1076::nat) < 2047" and fr: "(0::nat) < 2 ^ 52" by simp_all
    note dv = double_value_encode [OF ef fr]
    from edge have "j = 2 ^ 53 \<or> j = - (2 ^ 53)" by linarith
    then show ?thesis
    proof
      assume e: "j = 2 ^ 53"
      have "double_of_int j = encode False 1076 0" by (simp only: e double_of_int_2_53)
      then show ?thesis using dv [of False] e by simp
    next
      assume e: "j = - (2 ^ 53)"
      have "double_of_int j = encode True 1076 0" by (simp only: e double_of_int_2_53)
      then show ?thesis using dv [of True] e by simp
    qed
  next
    case large
    have "2 ^ 53 \<le> \<bar>j\<bar>" "\<bar>j\<bar> \<le> 2 ^ 63" using large r by linarith+
    from double_of_int_round [OF this] large show ?thesis by simp
  qed
  then show ?thesis by (simp add: d j_def)
qed

lemma ieee_ops_sel:
  "cast_si64 (ieee_ops printer) = static_cast_si64"
  "cast_double (ieee_ops printer) = static_cast_double"
  "double_zero (ieee_ops printer) = Double 0"
  "put_double (ieee_ops printer) = printer"
  by (simp_all add: ieee_ops_def)

lemmas double_eval =
  floor_rat_numeral ceiling_rat_numeral double_value_def trunc_toward_zero_def is_finite_def
  exponent_field_def fraction_field_def significand_def exponent_def sign_bit_def

lemmas cast_double_eval =
  static_cast_double_def double_of_int_def compute_bitlen encode_def round_half_even_def

subsection \<open>setType\<close>

text \<open>
  Claim C5, as amended. \<^verbatim>\<open>setType\<close> to the type the node has changes nothing. A Float
  node whose double is finite and whose value, truncated toward zero, lies in the range of si64
  (from \<^verbatim>\<open>- 2 ^ 63\<close> to \<^verbatim>\<open>2 ^ 63 - 1\<close>) holds, once set to Integer, the si64 of that
  truncated value. An Integer node set to Float holds the double that
  \<^verbatim>\<open>static_cast<double>\<close> gives: a finite double, within the fraction \<^verbatim>\<open>1 / 2 ^ 53\<close> of
  the integer, and of the same value as the integer up to \<^verbatim>\<open>2 ^ 53\<close> in absolute value.
  Every other change of type installs the default payload of the new type (nothing, false, the
  double 0.0, empty string, empty sequence, empty mapping, 0). \<^verbatim>\<open>meta\<close> and \<^verbatim>\<open>flags\<close>
  are kept in every case.
\<close>

theorem setType_transitions:
  "setType (ieee_ops printer) (getType n) n = Inr n
   \<and> (is_finite x \<and> - (2 ^ 63) \<le> trunc_toward_zero (double_value x)
        \<and> trunc_toward_zero (double_value x) < 2 ^ 63 \<longrightarrow>
      setType (ieee_ops printer) DATA_INTEGER (JsonNode (DoubleV x) m fl)
        = Inr (JsonNode (Si64V (word_of_int (trunc_toward_zero (double_value x)))) m fl)
      \<and> sint (word_of_int (trunc_toward_zero (double_value x)) :: si64)
          = trunc_toward_zero (double_value x))
   \<and> setType (ieee_ops printer) DATA_FLOAT (JsonNode (Si64V i) m fl)
       = Inr (JsonNode (DoubleV (static_cast_double i)) m fl)
   \<and> is_finite (static_cast_double i)
   \<and> \<bar>double_value (static_cast_double i) - of_int (sint i)\<bar> * 2 ^ 53 \<le> \<bar>of_int (sint i)\<bar>
   \<and> (\<bar>sint i\<bar> \<le> 2 ^ 53 \<longrightarrow> double_value (static_cast_double i) = of_int (sint i))
   \<and> (getType n \<noteq> t \<and> \<not> (getType n = DATA_FLOAT \<and> t = DATA_INTEGER)
        \<and> \<not> (getType n = DATA_INTEGER \<and> t = DATA_FLOAT) \<longrightarrow>
      setType (ieee_ops printer) t n =
        Inr (JsonNode
          (case t of
             DATA_NULL \<Rightarrow> Monostate
           | DATA_BOOL \<Rightarrow> BoolV False
           | DATA_FLOAT \<Rightarrow> DoubleV (Double 0)
           | DATA_STRING \<Rightarrow> StringV []
           | DATA_VECTOR \<Rightarrow> VectorV []
           | DATA_STRUCT \<Rightarrow> MapV []
           | DATA_INTEGER \<Rightarrow> Si64V 0)
          (meta n) (flags n)))
   \<and> double_value (Double 0) = 0"
proof -
  obtain d m' fl' where n: "n = JsonNode d m' fl'" by (cases n)
  have same: "setType (ieee_ops printer) (getType n) n = Inr n" by (simp add: n)
  have toint: "setType (ieee_ops printer) DATA_INTEGER (JsonNode (DoubleV x) m fl)
        = Inr (JsonNode (Si64V (word_of_int (trunc_toward_zero (double_value x)))) m fl)
      \<and> sint (word_of_int (trunc_toward_zero (double_value x)) :: si64)
          = trunc_toward_zero (double_value x)"
    if "is_finite x" "- (2 ^ 63) \<le> trunc_toward_zero (double_value x)"
       "trunc_toward_zero (double_value x) < 2 ^ 63"
    using static_cast_si64_trunc [OF that] sint_word_of_int [OF that(2,3)]
    by (simp add: ieee_ops_def)
  have tofloat: "setType (ieee_ops printer) DATA_FLOAT (JsonNode (Si64V i) m fl)
       = Inr (JsonNode (DoubleV (static_cast_double i)) m fl)"
    by (simp add: ieee_ops_def)
  have other: "setType (ieee_ops printer) t n = Inr (JsonNode
          (case t of
             DATA_NULL \<Rightarrow> Monostate
           | DATA_BOOL \<Rightarrow> BoolV False
           | DATA_FLOAT \<Rightarrow> DoubleV (Double 0)
           | DATA_STRING \<Rightarrow> StringV []
           | DATA_VECTOR \<Rightarrow> VectorV []
           | DATA_STRUCT \<Rightarrow> MapV []
           | DATA_INTEGER \<Rightarrow> Si64V 0)
          (meta n) (flags n))"
    if "getType n \<noteq> t" "\<not> (getType n = DATA_FLOAT \<and> t = DATA_INTEGER)"
       "\<not> (getType n = DATA_INTEGER \<and> t = DATA_FLOAT)"
    using that unfolding n by (cases d; cases t) (simp_all add: ieee_ops_def)
  show ?thesis
    using same toint tofloat other static_cast_double_value [of i] double_zero_value by blast
qed

text \<open>At concrete nodes: a String node set to String; the double 3.9 (bits
  \<^verbatim>\<open>0x400F333333333333\<close>) set to Integer gives 3; the integer 5 set to Float gives the double
  5.0 (bits \<^verbatim>\<open>0x4014000000000000\<close>); a String node set to Bool.\<close>

theorem setType_transitions_witness:
  "setType (ieee_ops (\<lambda>x. [])) DATA_STRING (JsonNode (StringV ''abc'') ''m'' [''f''])
     = Inr (JsonNode (StringV ''abc'') ''m'' [''f''])
   \<and> trunc_toward_zero (double_value (Double 0x400F333333333333)) = 3
   \<and> setType (ieee_ops (\<lambda>x. [])) DATA_INTEGER
        (JsonNode (DoubleV (Double 0x400F333333333333)) ''m'' [''f''])
     = Inr (JsonNode (Si64V 3) ''m'' [''f''])
   \<and> setType (ieee_ops (\<lambda>x. [])) DATA_FLOAT (JsonNode (Si64V 5) ''m'' [''f''])
     = Inr (JsonNode (DoubleV (Double 0x4014000000000000)) ''m'' [''f''])
   \<and> double_value (Double 0x4014000000000000) = 5
   \<and> setType (ieee_ops (\<lambda>x. [])) DATA_BOOL (JsonNode (StringV ''abc'') ''m'' [''f''])
     = Inr (JsonNode (BoolV False) ''m'' [''f''])"
proof -
  have a: "is_finite (Double 0x400F333333333333)"
    "trunc_toward_zero (double_value (Double 0x400F333333333333)) = 3"
    by (simp_all add: double_eval Let_def)
  have b: "static_cast_double 5 = Double 0x4014000000000000" "sint (5 :: si64) = 5"
    by (simp_all add: cast_double_eval Let_def)
  show ?thesis
    using setType_transitions [of "\<lambda>x. []" "JsonNode (StringV ''abc'') ''m'' [''f'']"
      "Double 0x400F333333333333" "''m''" "[''f'']" 5 DATA_BOOL]
    by (simp add: a b)
qed

text \<open>The claim as stated fails on a Float node that holds 1e30 (bits
  \<^verbatim>\<open>0x46293E5939A08CEA\<close>): the double is finite, its truncated value is above the greatest
  si64, and the cast, with it \<^verbatim>\<open>setType\<close>, has no defined result. No payload holds the float
  truncated toward zero.\<close>

theorem setType_float_to_integer_counterexample:
  "is_finite (Double 0x46293E5939A08CEA)
   \<and> trunc_toward_zero (double_value (Double 0x46293E5939A08CEA))
       = 1000000000000000019884624838656
   \<and> setType (ieee_ops (\<lambda>x. [])) DATA_INTEGER
        (JsonNode (DoubleV (Double 0x46293E5939A08CEA)) [] [])
     = Inl UndefinedCast"
  by (simp add: ieee_ops_def static_cast_si64_def double_eval Let_def)

subsection \<open>writeString\<close>

lemma escape_char_find:
  "escape_char c = (case find_char escaped c 0 of Some k \<Rightarrow> [CHR 0x5C, escaped_code ! k] | None \<Rightarrow> [c])"
  by (simp add: escape_char_def escape_table_def escaped_def escaped_code_def find_char.simps)

lemma escaped_code_table: "set escaped_code = snd ` set escape_table"
  by (simp add: escaped_code_def escape_table_def)

lemma escape_spec_step:
  "escape_spec (c # cs) =
     (if c = CHR 0x5C \<and> cs \<noteq> [] \<and> hd cs \<in> set escaped_code then c # hd cs # escape_spec (tl cs)
      else escape_char c @ escape_spec cs)"
  by (cases cs) (simp_all add: escaped_code_table)

lemma substr_snoc:
  "start \<le> pos \<Longrightarrow> pos < length s \<Longrightarrow>
   substr s start (Suc pos - start) = substr s start (pos - start) @ [s ! pos]"
  by (simp add: substr_def Suc_diff_le take_Suc_conv_app_nth)

lemma writeString_loop_flush:
  "start \<le> pos \<Longrightarrow> pos \<le> length s \<Longrightarrow>
   (case writeString_loop s pos start sink of (p, st, sk) \<Rightarrow> sk @ substr s st (p - st))
     = sink @ substr s start (pos - start) @ escape_spec (drop pos s)"
proof (induction s pos start sink rule: writeString_loop.induct)
  case (1 s pos start sink)
  show ?case
  proof (cases "pos < length s")
    case False
    then have "writeString_loop s pos start sink = (pos, start, sink)"
      by (subst writeString_loop.simps) simp
    with False "1.prems" show ?thesis by simp
  next
    case inb: True
    then have dr: "drop pos s = s ! pos # drop (Suc pos) s" by (simp add: Cons_nth_drop_Suc)
    show ?thesis
    proof (cases "s ! pos = CHR 0x5C \<and> pos + 1 < length s \<and> s ! (pos + 1) \<in> set escaped_code")
      case pair: True
      then have dr2: "drop (Suc pos) s = s ! (Suc pos) # drop (Suc (Suc pos)) s"
        by (simp add: Cons_nth_drop_Suc)
      have ih: "(case writeString_loop s (pos + 1 + 1) start sink of (p, st, sk) \<Rightarrow> sk @ substr s st (p - st))
                  = sink @ substr s start (pos + 1 + 1 - start) @ escape_spec (drop (pos + 1 + 1) s)"
        using "1.IH"(1) [OF inb pair] "1.prems" pair by simp
      have sub: "substr s start (Suc (Suc pos) - start) = substr s start (pos - start) @ [s ! pos, s ! Suc pos]"
        using substr_snoc [of start "Suc pos" s] substr_snoc [of start pos s] "1.prems" pair inb by simp
      have esc: "escape_spec (drop pos s) = s ! pos # s ! Suc pos # escape_spec (drop (Suc (Suc pos)) s)"
        using pair by (simp add: dr dr2 escape_spec_step)
      have step: "writeString_loop s pos start sink = writeString_loop s (pos + 1 + 1) start sink"
        by (subst writeString_loop.simps) (simp only: inb pair if_True simp_thms)
      show ?thesis
        using ih by (simp add: step sub esc)
    next
      case nopair: False
      have esc: "escape_spec (drop pos s) = escape_char (s ! pos) @ escape_spec (drop (Suc pos) s)"
      proof (cases "Suc pos < length s")
        case True
        then have "drop (Suc pos) s = s ! (Suc pos) # drop (Suc (Suc pos)) s"
          by (simp add: Cons_nth_drop_Suc)
        with nopair True show ?thesis by (auto simp: dr escape_spec_step)
      next
        case False
        then show ?thesis by (simp add: dr escape_spec_step)
      qed
      have cond: "(s ! pos = CHR 0x5C \<and> pos + 1 < length s \<and> s ! (pos + 1) \<in> set escaped_code) = False"
        using nopair by blast
      show ?thesis
      proof (cases "find_char escaped (s ! pos) 0")
        case None
        have step: "writeString_loop s pos start sink = writeString_loop s (pos + 1) start sink"
          by (subst writeString_loop.simps) (simp only: inb cond None if_True if_False option.case)
        have ih: "(case writeString_loop s (pos + 1) start sink of (p, st, sk) \<Rightarrow> sk @ substr s st (p - st))
                  = sink @ substr s start (pos + 1 - start) @ escape_spec (drop (pos + 1) s)"
          using "1.IH"(2) [OF inb nopair None] "1.prems" inb by simp
        have "escape_char (s ! pos) = [s ! pos]"
          using None by (simp add: escape_char_find)
        then show ?thesis
          using ih inb "1.prems" by (simp add: step esc substr_snoc)
      next
        case (Some k)
        have step: "writeString_loop s pos start sink =
                    writeString_loop s (pos + 1) (pos + 1)
                       (sink @ substr s start (pos - start) @ [CHR 0x5C, escaped_code ! k])"
          by (subst writeString_loop.simps) (simp only: inb cond Some if_True if_False option.case)
        have ih: "(case writeString_loop s (pos + 1) (pos + 1)
                       (sink @ substr s start (pos - start) @ [CHR 0x5C, escaped_code ! k]) of
                     (p, st, sk) \<Rightarrow> sk @ substr s st (p - st))
                  = (sink @ substr s start (pos - start) @ [CHR 0x5C, escaped_code ! k])
                      @ substr s (pos + 1) (pos + 1 - (pos + 1)) @ escape_spec (drop (pos + 1) s)"
          using "1.IH"(3) [OF inb nopair Some] "1.prems" inb by simp
        have "escape_char (s ! pos) = [CHR 0x5C, escaped_code ! k]"
          using Some by (simp add: escape_char_find)
        then show ?thesis
          using ih by (simp add: step esc substr_def)
      qed
    qed
  qed
qed

lemma writeString_put: "writeString w s = put w ([CHR 0x22] @ escape_spec s @ [CHR 0x22])"
proof -
  obtain p st sk where r: "writeString_loop s 0 0 (out w @ [CHR 0x22]) = (p, st, sk)"
    by (cases "writeString_loop s 0 0 (out w @ [CHR 0x22])") auto
  have "sk @ substr s st (p - st) = out w @ [CHR 0x22] @ escape_spec s"
    using writeString_loop_flush [of 0 0 s "out w @ [CHR 0x22]"] r by (simp add: substr_def)
  with r show ?thesis by (simp add: writeString_def put_def)
qed

text \<open>
  Claim C4. For every string, \<^verbatim>\<open>writeString\<close> appends to the sink a quote, the body and a
  quote, and changes nothing else of the writer. The body is \<^verbatim>\<open>escape_spec\<close> of the string:
  a backslash directly before one of the eight code characters is copied together with it, any
  other character of the table is replaced by backslash and its code, and every other character
  is copied.
\<close>

theorem writeString_escapes:
  "writeString w s = w\<lparr>out := out w @ [CHR 0x22] @ escape_spec s @ [CHR 0x22]\<rparr>"
proof -
  obtain p st sk where r: "writeString_loop s 0 0 (out w @ [CHR 0x22]) = (p, st, sk)"
    by (cases "writeString_loop s 0 0 (out w @ [CHR 0x22])") auto
  from writeString_loop_flush [of 0 0 s "out w @ [CHR 0x22]"] r
  have "sk @ substr s st (p - st) = out w @ [CHR 0x22] @ escape_spec s"
    by (simp add: substr_def)
  with r show ?thesis by (simp add: writeString_def put_def)
qed

text \<open>The string of the five characters a, backslash, quote, slash, newline is written as
  \<^verbatim>\<open>"a\"\/\n"\<close>: the pair of backslash and quote is kept, the slash and the newline are
  escaped.\<close>

theorem writeString_escapes_witness:
  "out (writeString \<lparr>prefix = [], out = [], compact = False, compactMode = False\<rparr>
          [CHR ''a'', CHR 0x5C, CHR 0x22, CHR 0x2F, CHR 0x0A])
     = [CHR 0x22, CHR ''a'', CHR 0x5C, CHR 0x22, CHR 0x5C, CHR 0x2F, CHR 0x5C, CHR ''n'', CHR 0x22]"
  using writeString_escapes [of "\<lparr>prefix = [], out = [], compact = False, compactMode = False\<rparr>"
      "[CHR ''a'', CHR 0x5C, CHR 0x22, CHR 0x2F, CHR 0x0A]"]
  by (simp add: escape_char_def escape_table_def)

subsection \<open>isCompact\<close>

text \<open>
  Claim C8. \<^verbatim>\<open>isCompact\<close> holds of every node of a scalar type (Null, Bool, Integer, Float,
  String); of a Sequence exactly when it holds of every element; of a Mapping with no entry; of
  a Mapping with one entry exactly when it holds of the value of that entry; and of no Mapping
  with two entries or more.
\<close>

theorem isCompact_cases:
  "(getType n \<in> {DATA_NULL, DATA_BOOL, DATA_INTEGER, DATA_FLOAT, DATA_STRING} \<longrightarrow> isCompact n)
   \<and> (isCompact (JsonNode (VectorV v) m fl) \<longleftrightarrow> (\<forall>e \<in> set v. isCompact e))
   \<and> isCompact (JsonNode (MapV []) m fl)
   \<and> (isCompact (JsonNode (MapV [(k, e)]) m fl) \<longleftrightarrow> isCompact e)
   \<and> (length mp \<ge> 2 \<longrightarrow> \<not> isCompact (JsonNode (MapV mp) m fl))"
proof -
  obtain d m' fl' where n: "n = JsonNode d m' fl'" by (cases n)
  have scalar: "isCompact n"
    if "getType n \<in> {DATA_NULL, DATA_BOOL, DATA_INTEGER, DATA_FLOAT, DATA_STRING}"
    using that unfolding n by (cases d) simp_all
  have vec: "isCompact (JsonNode (VectorV v) m fl) \<longleftrightarrow> (\<forall>e \<in> set v. isCompact e)"
    by (simp add: list_all_iff)
  have many: "\<not> isCompact (JsonNode (MapV mp) m fl)" if "length mp \<ge> 2"
    using that by (cases mp) (auto simp: Let_def)
  show ?thesis using scalar vec many by simp
qed

text \<open>A String node; a Sequence with an element that is not compact; a Mapping with one
  entry of a compact value; a Mapping with two scalar entries.\<close>

theorem isCompact_cases_witness:
  "isCompact (JsonNode (StringV ''x'') [] [] :: double JsonNode)
   \<and> \<not> isCompact (JsonNode (VectorV [JsonNode (Si64V 1) [] [],
          JsonNode (MapV [(''a'', JsonNode (Si64V 1) [] []), (''b'', JsonNode (Si64V 2) [] [])]) [] []]) [] []
        :: double JsonNode)
   \<and> isCompact (JsonNode (MapV [(''k'', JsonNode (VectorV [JsonNode (BoolV True) [] []]) [] [])]) [] []
        :: double JsonNode)
   \<and> \<not> isCompact (JsonNode (MapV [(''a'', JsonNode (Si64V 1) [] []), (''b'', JsonNode (Si64V 2) [] [])]) [] []
        :: double JsonNode)"
  using isCompact_cases [of "JsonNode (StringV ''x'') [] [] :: double JsonNode"
      "[JsonNode (Si64V 1) [] [],
          JsonNode (MapV [(''a'', JsonNode (Si64V 1) [] []), (''b'', JsonNode (Si64V 2) [] [])]) [] []]"
      "[]" "[]" "''k''" "JsonNode (VectorV [JsonNode (BoolV True) [] []]) [] []"
      "[(''a'', JsonNode (Si64V 1) [] []), (''b'', JsonNode (Si64V 2) [] [])]"]
  by simp

subsection \<open>Const typed accessors\<close>

text \<open>The accessors on every node, for any primitives of double, where \<^verbatim>\<open>Integer()\<close> does
  not cast.\<close>

lemma const_accessors_cases:
  "(data n = BoolV b \<longrightarrow> Bool_const False n = Inr b)
   \<and> (getType n \<noteq> DATA_BOOL \<longrightarrow> Bool_const False n = Inr False)
   \<and> (data n = DoubleV x \<longrightarrow> Float_const ops False n = Inr x)
   \<and> (data n = Si64V i \<longrightarrow> Float_const ops False n = Inr (cast_double ops i))
   \<and> (getType n \<noteq> DATA_FLOAT \<and> getType n \<noteq> DATA_INTEGER \<longrightarrow>
        Float_const ops False n = Inr (double_zero ops))
   \<and> (data n = Si64V i \<longrightarrow> Integer_const ops False n = Inr i)
   \<and> (getType n \<noteq> DATA_INTEGER \<and> getType n \<noteq> DATA_FLOAT \<longrightarrow>
        Integer_const ops False n = Inr 0)
   \<and> (data n = StringV s \<longrightarrow> String_const False n = Inr s)
   \<and> (getType n \<noteq> DATA_STRING \<longrightarrow> String_const False n = Inr [])
   \<and> (data n = VectorV v \<longrightarrow> Vector_const False n = Inr v)
   \<and> (getType n \<noteq> DATA_VECTOR \<longrightarrow> Vector_const False n = Inr [])
   \<and> (data n = MapV mp \<longrightarrow> Struct_const False n = Inr mp)
   \<and> (getType n \<noteq> DATA_STRUCT \<longrightarrow> Struct_const False n = Inr [])"
  by (cases "data n")
     (simp_all add: getType_def Bool_const_def Float_const_def Integer_const_def String_const_def
        Vector_const_def Struct_const_def boolDefault_def floatDefault_def integerDefault_def
        stringDefault_def vectorDefault_def mapDefault_def)

text \<open>
  Claim C10, as amended. In a build without assertions (\<^verbatim>\<open>asserts = False\<close>) a const
  accessor returns the payload when the node has the type of the accessor, and the default
  (false, the double 0.0, 0, empty string, empty sequence, empty mapping) on a node of any other
  type, Null or not, with two exceptions. \<^verbatim>\<open>Float()\<close> on an Integer node returns the double
  that \<^verbatim>\<open>static_cast<double>\<close> gives: finite, within the fraction \<^verbatim>\<open>1 / 2 ^ 53\<close> of the
  integer, and of the same value up to \<^verbatim>\<open>2 ^ 53\<close> in absolute value. \<^verbatim>\<open>Integer()\<close> on a
  Float node whose double is finite and whose value, truncated toward zero, lies in the range of
  si64 returns the si64 of that truncated value. A const accessor is a function of the node to
  its result: there is no node afterwards that could differ.
\<close>

theorem const_accessors_total:
  "(data n = BoolV b \<longrightarrow> Bool_const False n = Inr b)
   \<and> (getType n \<noteq> DATA_BOOL \<longrightarrow> Bool_const False n = Inr False)
   \<and> (data n = DoubleV x \<longrightarrow> Float_const (ieee_ops printer) False n = Inr x)
   \<and> (data n = Si64V i \<longrightarrow>
        Float_const (ieee_ops printer) False n = Inr (static_cast_double i)
        \<and> is_finite (static_cast_double i)
        \<and> \<bar>double_value (static_cast_double i) - of_int (sint i)\<bar> * 2 ^ 53 \<le> \<bar>of_int (sint i)\<bar>
        \<and> (\<bar>sint i\<bar> \<le> 2 ^ 53 \<longrightarrow> double_value (static_cast_double i) = of_int (sint i)))
   \<and> (getType n \<noteq> DATA_FLOAT \<and> getType n \<noteq> DATA_INTEGER \<longrightarrow>
        Float_const (ieee_ops printer) False n = Inr (Double 0))
   \<and> double_value (Double 0) = 0
   \<and> (data n = Si64V i \<longrightarrow> Integer_const (ieee_ops printer) False n = Inr i)
   \<and> (data n = DoubleV x \<and> is_finite x \<and> - (2 ^ 63) \<le> trunc_toward_zero (double_value x)
        \<and> trunc_toward_zero (double_value x) < 2 ^ 63 \<longrightarrow>
        Integer_const (ieee_ops printer) False n
          = Inr (word_of_int (trunc_toward_zero (double_value x)))
        \<and> sint (word_of_int (trunc_toward_zero (double_value x)) :: si64)
            = trunc_toward_zero (double_value x))
   \<and> (getType n \<noteq> DATA_INTEGER \<and> getType n \<noteq> DATA_FLOAT \<longrightarrow>
        Integer_const (ieee_ops printer) False n = Inr 0)
   \<and> (data n = StringV s \<longrightarrow> String_const False n = Inr s)
   \<and> (getType n \<noteq> DATA_STRING \<longrightarrow> String_const False n = Inr [])
   \<and> (data n = VectorV v \<longrightarrow> Vector_const False n = Inr v)
   \<and> (getType n \<noteq> DATA_VECTOR \<longrightarrow> Vector_const False n = Inr [])
   \<and> (data n = MapV mp \<longrightarrow> Struct_const False n = Inr mp)
   \<and> (getType n \<noteq> DATA_STRUCT \<longrightarrow> Struct_const False n = Inr [])"
proof -
  have toint: "Integer_const (ieee_ops printer) False n
          = Inr (word_of_int (trunc_toward_zero (double_value x)))
        \<and> sint (word_of_int (trunc_toward_zero (double_value x)) :: si64)
            = trunc_toward_zero (double_value x)"
    if "data n = DoubleV x" "is_finite x" "- (2 ^ 63) \<le> trunc_toward_zero (double_value x)"
       "trunc_toward_zero (double_value x) < 2 ^ 63"
    using static_cast_si64_trunc [OF that(2-4)] sint_word_of_int [OF that(3,4)] that(1)
    by (simp add: Integer_const_def ieee_ops_sel)
  have rest: "(data n = BoolV b \<longrightarrow> Bool_const False n = Inr b)
   \<and> (getType n \<noteq> DATA_BOOL \<longrightarrow> Bool_const False n = Inr False)
   \<and> (data n = DoubleV x \<longrightarrow> Float_const (ieee_ops printer) False n = Inr x)
   \<and> (data n = Si64V i \<longrightarrow>
        Float_const (ieee_ops printer) False n = Inr (static_cast_double i))
   \<and> (getType n \<noteq> DATA_FLOAT \<and> getType n \<noteq> DATA_INTEGER \<longrightarrow>
        Float_const (ieee_ops printer) False n = Inr (Double 0))
   \<and> (data n = Si64V i \<longrightarrow> Integer_const (ieee_ops printer) False n = Inr i)
   \<and> (getType n \<noteq> DATA_INTEGER \<and> getType n \<noteq> DATA_FLOAT \<longrightarrow>
        Integer_const (ieee_ops printer) False n = Inr 0)
   \<and> (data n = StringV s \<longrightarrow> String_const False n = Inr s)
   \<and> (getType n \<noteq> DATA_STRING \<longrightarrow> String_const False n = Inr [])
   \<and> (data n = VectorV v \<longrightarrow> Vector_const False n = Inr v)
   \<and> (getType n \<noteq> DATA_VECTOR \<longrightarrow> Vector_const False n = Inr [])
   \<and> (data n = MapV mp \<longrightarrow> Struct_const False n = Inr mp)
   \<and> (getType n \<noteq> DATA_STRUCT \<longrightarrow> Struct_const False n = Inr [])"
    using const_accessors_cases [of n b x "ieee_ops printer" i s v mp]
    by (simp only: ieee_ops_sel)
  show ?thesis
    using toint rest static_cast_double_value [of i] double_zero_value by simp
qed

text \<open>On a Bool node, on a Float node that holds -3.75 (bits \<^verbatim>\<open>0xC00E000000000000\<close>,
  truncated to -3) and on an Integer node that holds 7 (the double of bits
  \<^verbatim>\<open>0x401C000000000000\<close>); \<^verbatim>\<open>String()\<close>, \<^verbatim>\<open>Vector()\<close>, \<^verbatim>\<open>Struct()\<close> and
  \<^verbatim>\<open>Bool()\<close> on the Integer node return the defaults.\<close>

theorem const_accessors_total_witness:
  "Bool_const False (JsonNode (BoolV True) [] [] :: double JsonNode) = Inr True
   \<and> String_const False (JsonNode (Si64V 7) [] [] :: double JsonNode) = Inr []
   \<and> trunc_toward_zero (double_value (Double 0xC00E000000000000)) = - 3
   \<and> Integer_const (ieee_ops (\<lambda>x. [])) False (JsonNode (DoubleV (Double 0xC00E000000000000)) [] [])
       = Inr (- 3)
   \<and> Float_const (ieee_ops (\<lambda>x. [])) False (JsonNode (Si64V 7) [] [])
       = Inr (Double 0x401C000000000000)
   \<and> double_value (Double 0x401C000000000000) = 7
   \<and> Vector_const False (JsonNode (Si64V 7) [] [] :: double JsonNode) = Inr []
   \<and> Struct_const False (JsonNode (Si64V 7) [] [] :: double JsonNode) = Inr []
   \<and> Bool_const False (JsonNode (Si64V 7) [] [] :: double JsonNode) = Inr False"
proof -
  have a: "is_finite (Double 0xC00E000000000000)"
    "trunc_toward_zero (double_value (Double 0xC00E000000000000)) = - 3"
    by (simp_all add: double_eval Let_def)
  have b: "static_cast_double 7 = Double 0x401C000000000000" "sint (7 :: si64) = 7"
    by (simp_all add: cast_double_eval Let_def)
  show ?thesis
    using const_accessors_total [of "JsonNode (BoolV True) [] []" True
        "Double 0xC00E000000000000" "\<lambda>x. []" 7 "[]" "[]" "[]"]
      const_accessors_total [of "JsonNode (DoubleV (Double 0xC00E000000000000)) [] []" True
        "Double 0xC00E000000000000" "\<lambda>x. []" 7 "[]" "[]" "[]"]
      const_accessors_total [of "JsonNode (Si64V 7) [] []" True
        "Double 0xC00E000000000000" "\<lambda>x. []" 7 "[]" "[]" "[]"]
    by (simp add: a b)
qed

text \<open>The claim as stated fails on a Float node that holds \<^verbatim>\<open>2 ^ 63\<close> (bits
  \<^verbatim>\<open>0x43E0000000000000\<close>): the truncated value is one above the greatest si64, the cast in
  \<^verbatim>\<open>Integer()\<close> has no defined result, and the accessor returns no value there.\<close>

theorem Integer_const_undefined_counterexample:
  "is_finite (Double 0x43E0000000000000)
   \<and> trunc_toward_zero (double_value (Double 0x43E0000000000000)) = 9223372036854775808
   \<and> Integer_const (ieee_ops (\<lambda>x. [])) False (JsonNode (DoubleV (Double 0x43E0000000000000)) [] [])
       = Inl UndefinedCast"
  by (simp add: Integer_const_def ieee_ops_def static_cast_si64_def double_eval Let_def)

subsection \<open>TryBoolFromString\<close>

text \<open>\<^verbatim>\<open>trim\<close> removes the whitespace at both ends and nothing else.\<close>

lemma trim_decomposition:
  "\<exists>l r. s = l @ trim s @ r \<and> list_all is_space l \<and> list_all is_space r
     \<and> (trim s \<noteq> [] \<longrightarrow> \<not> is_space (hd (trim s)) \<and> \<not> is_space (last (trim s)))"
proof -
  define u where "u = dropWhile is_space (rev s)"
  define r where "r = rev (takeWhile is_space (rev s))"
  define l where "l = takeWhile is_space (rev u)"
  have t: "trim s = dropWhile is_space (rev u)" by (simp add: trim_def u_def)
  have "rev s = takeWhile is_space (rev s) @ u" by (simp add: u_def)
  then have "rev (rev s) = rev (takeWhile is_space (rev s) @ u)" by simp
  then have s: "s = rev u @ r" by (simp add: r_def)
  have ru: "rev u = l @ trim s" by (simp add: l_def t)
  have "list_all is_space l"
    unfolding l_def list_all_iff by (auto dest: set_takeWhileD)
  moreover have "list_all is_space r"
    unfolding r_def list_all_iff by (auto dest: set_takeWhileD)
  moreover have "\<not> is_space (hd (trim s)) \<and> \<not> is_space (last (trim s))" if ne: "trim s \<noteq> []"
  proof -
    have h: "\<not> is_space (hd (trim s))" using ne unfolding t by (rule hd_dropWhile)
    from ne ru have "last (rev u) = last (trim s)" by simp
    moreover from ne ru have "u \<noteq> []" by auto
    ultimately have "last (trim s) = hd u" by (simp add: last_rev)
    moreover have "\<not> is_space (hd u)" using \<open>u \<noteq> []\<close> unfolding u_def by (rule hd_dropWhile)
    ultimately show ?thesis using h by simp
  qed
  moreover have "s = l @ trim s @ r" by (metis s ru append.assoc)
  ultimately show ?thesis by blast
qed

text \<open>
  Claim C6. On a Bool node \<^verbatim>\<open>TryBoolFromString\<close> returns the stored boolean with the
  success flag set. On a String node it trims and lower-cases the string and returns true with
  success when the result is "true", false with success when it is "false", and false without
  success otherwise. On a node of any other type it returns false without success. The pair
  is (returned value, success flag).
\<close>

theorem TryBoolFromString_cases:
  "(data n = BoolV b \<longrightarrow> TryBoolFromString n = (b, True))
   \<and> (data n = StringV s \<longrightarrow>
        TryBoolFromString n =
          (if to_lower (trim s) = ''true'' then (True, True)
           else if to_lower (trim s) = ''false'' then (False, True)
           else (False, False)))
   \<and> (getType n \<noteq> DATA_BOOL \<and> getType n \<noteq> DATA_STRING \<longrightarrow> TryBoolFromString n = (False, False))"
  by (cases "data n") (simp_all add: getType_def TryBoolFromString_def Let_def)

text \<open>On a Bool node, on the strings "  TRUE  " and "yes", and on an Integer node.\<close>

theorem TryBoolFromString_cases_witness:
  "TryBoolFromString (JsonNode (BoolV True) [] [] :: double JsonNode) = (True, True)
   \<and> TryBoolFromString (JsonNode (StringV ''  TRUE  '') [] [] :: double JsonNode) = (True, True)
   \<and> TryBoolFromString (JsonNode (StringV ''yes'') [] [] :: double JsonNode) = (False, False)
   \<and> TryBoolFromString (JsonNode (Si64V 1) [] [] :: double JsonNode) = (False, False)"
  using TryBoolFromString_cases [of "JsonNode (BoolV True) [] [] :: double JsonNode" True "[]"]
    TryBoolFromString_cases [of "JsonNode (StringV ''  TRUE  '') [] [] :: double JsonNode" True "''  TRUE  ''"]
    TryBoolFromString_cases [of "JsonNode (StringV ''yes'') [] [] :: double JsonNode" True "''yes''"]
    TryBoolFromString_cases [of "JsonNode (Si64V 1) [] [] :: double JsonNode" True "[]"]
  by (simp add: trim_def to_lower_def tolower_def is_space_def)

subsection \<open>Indexing\<close>




text \<open>At the greatest index \<^verbatim>\<open>child + 1\<close> wraps to 0: the sequence is resized to no
  element and the element read is past its end.\<close>

lemma subscript_index_wraps:
  "length v < 2 ^ 64 \<Longrightarrow>
   subscript_index ops lims (JsonNode (VectorV v) m fl) (- 1)
     = (JsonNode (VectorV []) m fl, Inl OutOfBounds)"
  by (simp add: subscript_index_def Vector_mut_def resize_def unsigned_minus_1_eq_mask
        mask_eq_exp_minus_1)




subsection \<open>The pointer resolver\<close>

lemma find_char_segment:
  "ch \<notin> set entry \<Longrightarrow> rest = [] \<or> hd rest = ch \<Longrightarrow>
   find_char (pre @ entry @ rest) ch (length pre)
     = (if rest = [] then None else Some (length pre + length entry))"
proof (induction entry arbitrary: pre)
  case Nil
  then show ?case
    by (cases rest) (simp_all add: find_char.simps [of _ ch "length pre"])
next
  case (Cons e es)
  have "find_char (pre @ (e # es) @ rest) ch (length pre)
          = find_char ((pre @ [e]) @ es @ rest) ch (length (pre @ [e]))"
    using Cons.prems by (subst find_char.simps) auto
  also have "\<dots> = (if rest = [] then None else Some (length (pre @ [e]) + length es))"
    using Cons.prems by (intro Cons.IH) auto
  finally show ?case by simp
qed

lemma pointer_split:
  assumes "CHR ''/'' \<notin> set entry" and "rest = [] \<or> hd rest = CHR ''/''"
  shows "pointer_entry (c # entry @ rest) = entry"
    and "pointer_remainer (c # entry @ rest) = rest"
  using find_char_segment [OF assms, of "[c]"]
  by (auto simp: pointer_entry_def pointer_remainer_def substr_def)

lemma subscript_key_const_nullNode: "subscript_key_const asserts nullNode k = Inr nullNode"
  by (simp add: subscript_key_const_def Struct_const_def nullNode_def getType_def mapDefault_def)

lemma resolvePointer_const_nullNode:
  "resolvePointer_const False nullNode pointer = Inr (nullNode :: 'f JsonNode)"
proof (induction "length pointer" arbitrary: pointer rule: less_induct)
  case less
  show ?case
  proof (cases "pointer = []")
    case True
    then show ?thesis by (simp add: resolvePointer_const.simps)
  next
    case False
    then have "resolvePointer_const False (nullNode :: 'f JsonNode) pointer
                 = resolvePointer_const False (nullNode :: 'f JsonNode) (pointer_remainer pointer)"
      by (subst resolvePointer_const.simps)
         (simp add: subscript_key_const_nullNode Let_def, simp add: nullNode_def)
    also have "\<dots> = Inr nullNode"
      using False by (intro less) (simp add: pointer_remainer_shorter)
    finally show ?thesis .
  qed
qed

lemma decimal_index:
  "decimal entry < 2 ^ 64 \<Longrightarrow> unat (of_nat (decimal entry) :: size_t) = decimal entry"
  by (simp add: unsigned_of_nat take_bit_nat_eq_self)

text \<open>
  Claim C9. On a Sequence node, a pointer whose first segment (the characters between the
  leading slash and the next slash, or the end) holds a character that is no decimal digit, or
  is longer than one character and starts with 0, fails with \<^verbatim>\<open>InvalidPointer\<close>: on the const
  path and on the mutable path, which leaves the node as it was, with or without assertions.
\<close>

theorem resolvePointer_invalid_index:
  assumes "getType n = DATA_VECTOR"
    and "CHR ''/'' \<notin> set entry" and "rest = [] \<or> hd rest = CHR ''/''"
    and "(\<exists>c \<in> set entry. c \<notin> set ''0123456789'') \<or> (length entry > 1 \<and> hd entry = CHR ''0'')"
  shows "resolvePointer_const asserts n (CHR ''/'' # entry @ rest) = Inl InvalidPointer
       \<and> resolvePointer_mut ops asserts n (CHR ''/'' # entry @ rest) = (n, Inl InvalidPointer)"
proof -
  have e: "pointer_entry (CHR ''/'' # entry @ rest) = entry"
    using pointer_split(1) [OF assms(2,3)] .
  from assms(4) consider (nondigit) "\<exists>c \<in> set entry. \<not> is_digit c"
    | (zero) "length entry > 1 \<and> hd entry = CHR ''0''"
    unfolding is_digit_def by blast
  then show ?thesis
  proof cases
    case nondigit
    then have l: "list_ex (\<lambda>c. \<not> is_digit c) entry" by (simp add: list_ex_iff)
    have "resolvePointer_const asserts n (CHR ''/'' # entry @ rest) = Inl InvalidPointer"
      by (subst resolvePointer_const.simps) (simp add: e Let_def l assms(1))
    moreover have "resolvePointer_mut ops asserts n (CHR ''/'' # entry @ rest) = (n, Inl InvalidPointer)"
      by (subst resolvePointer_mut.simps) (simp add: e Let_def l assms(1))
    ultimately show ?thesis by simp
  next
    case zero
    then have "entry \<noteq> []" by auto
    with zero have z: "Suc 0 < length entry" "entry ! 0 = CHR ''0''" by (simp_all add: hd_conv_nth)
    have "resolvePointer_const asserts n (CHR ''/'' # entry @ rest) = Inl InvalidPointer"
      by (subst resolvePointer_const.simps) (simp add: e Let_def z assms(1))
    moreover have "resolvePointer_mut ops asserts n (CHR ''/'' # entry @ rest) = (n, Inl InvalidPointer)"
      by (subst resolvePointer_mut.simps) (simp add: e Let_def z assms(1))
    ultimately show ?thesis by simp
  qed
qed

text \<open>The segments 01 and 1a on a Sequence of two integers.\<close>

theorem resolvePointer_invalid_index_witness:
  "resolvePointer_const False
      (JsonNode (VectorV [JsonNode (Si64V 10) [] [], JsonNode (Si64V 20) [] []]) [] []
         :: double JsonNode) ''/01/x''
     = Inl InvalidPointer
   \<and> resolvePointer_mut (ieee_ops (\<lambda>x. [])) False
      (JsonNode (VectorV [JsonNode (Si64V 10) [] [], JsonNode (Si64V 20) [] []]) [] []) ''/01/x''
     = (JsonNode (VectorV [JsonNode (Si64V 10) [] [], JsonNode (Si64V 20) [] []]) [] [],
        Inl InvalidPointer)
   \<and> resolvePointer_const True
      (JsonNode (VectorV [JsonNode (Si64V 10) [] [], JsonNode (Si64V 20) [] []]) [] []
         :: double JsonNode) ''/1a''
     = Inl InvalidPointer"
  using resolvePointer_invalid_index [of
      "JsonNode (VectorV [JsonNode (Si64V 10) [] [], JsonNode (Si64V 20) [] []]) [] []"
      "''01''" "''/x''" False "ieee_ops (\<lambda>x. [])"]
    resolvePointer_invalid_index [of
      "JsonNode (VectorV [JsonNode (Si64V 10) [] [], JsonNode (Si64V 20) [] []]) [] []
         :: double JsonNode"
      "''1a''" "[]" True "ieee_ops (\<lambda>x. [])"]
  by simp

lemma index_entry:
  assumes "entry \<noteq> []" and "set entry \<subseteq> set ''0123456789''"
    and "\<not> (length entry > 1 \<and> hd entry = CHR ''0'')" and "decimal entry < 2 ^ 64"
  shows "list_ex (\<lambda>c. \<not> is_digit c) entry = False"
    and "(Suc 0 < length entry \<and> entry ! 0 = CHR ''0'') = False"
    and "lexical_cast_size_t entry = Some (of_nat (decimal entry))"
proof -
  from assms(2) have d: "\<forall>c \<in> set entry. is_digit c"
    unfolding is_digit_def by blast
  then show l: "list_ex (\<lambda>c. \<not> is_digit c) entry = False" by (simp add: list_ex_iff)
  from assms(1,3) show "(Suc 0 < length entry \<and> entry ! 0 = CHR ''0'') = False"
    by (simp add: hd_conv_nth)
  from assms(1,4) l show "lexical_cast_size_t entry = Some (of_nat (decimal entry))"
    by (simp add: lexical_cast_size_t_def)
qed

lemma resolvePointer_const_in_bounds:
  assumes "CHR ''/'' \<notin> set entry" and "rest = [] \<or> hd rest = CHR ''/''"
    and "entry \<noteq> []" and "set entry \<subseteq> set ''0123456789''"
    and "\<not> (length entry > 1 \<and> hd entry = CHR ''0'')" and "decimal entry < 2 ^ 64"
    and "decimal entry < length v"
  shows "resolvePointer_const asserts (JsonNode (VectorV v) m fl) (CHR ''/'' # entry @ rest)
           = resolvePointer_const asserts (v ! decimal entry) rest"
  using assms(7)
  by (subst resolvePointer_const.simps)
     (simp add: pointer_split [OF assms(1,2)] index_entry [OF assms(3-6)] decimal_index [OF assms(6)]
        Let_def Vector_const_def)

lemma resolvePointer_mut_in_bounds:
  assumes "CHR ''/'' \<notin> set entry" and "rest = [] \<or> hd rest = CHR ''/''"
    and "entry \<noteq> []" and "set entry \<subseteq> set ''0123456789''"
    and "\<not> (length entry > 1 \<and> hd entry = CHR ''0'')" and "decimal entry < 2 ^ 64"
    and "decimal entry < length v"
  shows "resolvePointer_mut ops asserts (JsonNode (VectorV v) m fl) (CHR ''/'' # entry @ rest)
           = (case resolvePointer_mut ops asserts (v ! decimal entry) rest of
                (c', r) \<Rightarrow> (JsonNode (VectorV (v[decimal entry := c'])) m fl, r))"
  using assms(7)
  by (subst resolvePointer_mut.simps)
     (simp add: pointer_split [OF assms(1,2)] index_entry [OF assms(3-6)] decimal_index [OF assms(6)]
        Let_def Vector_mut_def)

lemma resolvePointer_const_out_of_bounds:
  assumes "CHR ''/'' \<notin> set entry" and "rest = [] \<or> hd rest = CHR ''/''"
    and "entry \<noteq> []" and "set entry \<subseteq> set ''0123456789''"
    and "\<not> (length entry > 1 \<and> hd entry = CHR ''0'')" and "decimal entry < 2 ^ 64"
    and "length v \<le> decimal entry"
  shows "resolvePointer_const False (JsonNode (VectorV v) m fl) (CHR ''/'' # entry @ rest)
           = Inr nullNode"
    and "resolvePointer_const True (JsonNode (VectorV v) m fl) (CHR ''/'' # entry @ rest)
           = Inl AssertionFailed"
proof -
  show "resolvePointer_const False (JsonNode (VectorV v) m fl) (CHR ''/'' # entry @ rest)
           = Inr nullNode"
    using assms(7)
    by (subst resolvePointer_const.simps)
       (simp add: pointer_split [OF assms(1,2)] index_entry [OF assms(3-6)]
          decimal_index [OF assms(6)] Let_def Vector_const_def subscript_key_const_def
          Struct_const_def mapDefault_def resolvePointer_const_nullNode)
  show "resolvePointer_const True (JsonNode (VectorV v) m fl) (CHR ''/'' # entry @ rest)
           = Inl AssertionFailed"
    using assms(7)
    by (subst resolvePointer_const.simps)
       (simp add: pointer_split [OF assms(1,2)] index_entry [OF assms(3-6)]
          decimal_index [OF assms(6)] Let_def Vector_const_def subscript_key_const_def
          Struct_const_def)
qed

lemma resolvePointer_mut_out_of_bounds:
  assumes "CHR ''/'' \<notin> set entry" and "rest = [] \<or> hd rest = CHR ''/''"
    and "entry \<noteq> []" and "set entry \<subseteq> set ''0123456789''"
    and "\<not> (length entry > 1 \<and> hd entry = CHR ''0'')" and "decimal entry < 2 ^ 64"
    and "length v \<le> decimal entry"
  shows "resolvePointer_mut ops asserts (JsonNode (VectorV v) m fl) (CHR ''/'' # entry @ rest)
           = (case resolvePointer_mut ops asserts nullNode rest of
                (c', r) \<Rightarrow> (JsonNode (MapV [(entry, c')]) m fl, r))"
  using assms(7)
  by (subst resolvePointer_mut.simps)
     (simp add: pointer_split [OF assms(1,2)] index_entry [OF assms(3-6)] decimal_index [OF assms(6)]
        Let_def Vector_mut_def subscript_key_def Struct_mut_def map_store_def)

lemma resolvePointer_empty:
  "resolvePointer_const asserts n [] = Inr n"
  "resolvePointer_mut ops asserts n [] = (n, Inr n)"
  by (simp_all add: resolvePointer_const.simps resolvePointer_mut.simps)

lemmas resolver_eval =
  pointer_entry_def pointer_remainer_def find_char.simps substr_def
  lexical_cast_size_t_def decimal_def digit_value_def is_digit_def Let_def
  Vector_const_def Struct_const_def subscript_key_const_def mapDefault_def vectorDefault_def
  Vector_mut_def Struct_mut_def subscript_key_def map_store_def nullNode_def

text \<open>
  Claim C1. The claim: on a Sequence, a decimal index out of bounds resolves to the Sequence
  itself, unchanged. The code on the Sequence [10, 20] with the pointer /5 (and on the Mapping of
  a to that Sequence with /a/5): the index is not within bounds, the template leaves the
  \<^verbatim>\<open>if\<close> and runs \<^verbatim>\<open>in[entry].resolvePointer(remainer)\<close>, the statement for a node that is
  no Sequence. The const instance calls \<^verbatim>\<open>Struct() const\<close> on the Sequence, whose assertion
  (the node is Null or a Mapping) fails; with assertions compiled out it reads the empty default
  mapping and the result is the null sentinel. The mutable instance calls \<^verbatim>\<open>Struct()\<close>, which
  retypes the Sequence to a Mapping: the elements 10 and 20 are lost, the key 5 is inserted with
  a Null value, and that value is the result. In no case is the Sequence the result.
\<close>

theorem resolvePointer_out_of_bounds_eval:
  "resolvePointer_const False
      (JsonNode (VectorV [JsonNode (Si64V 10) [] [], JsonNode (Si64V 20) [] []]) [] []
         :: double JsonNode) ''/5''
     = Inr (JsonNode Monostate [] [])
   \<and> resolvePointer_const False
      (JsonNode (VectorV [JsonNode (Si64V 10) [] [], JsonNode (Si64V 20) [] []]) [] []
         :: double JsonNode) ''/5''
     \<noteq> Inr (JsonNode (VectorV [JsonNode (Si64V 10) [] [], JsonNode (Si64V 20) [] []]) [] [])
   \<and> resolvePointer_const False
      (JsonNode (MapV [(''a'',
          JsonNode (VectorV [JsonNode (Si64V 10) [] [], JsonNode (Si64V 20) [] []]) [] [])]) [] []
         :: double JsonNode) ''/a/5''
     = Inr (JsonNode Monostate [] [])
   \<and> resolvePointer_const True
      (JsonNode (VectorV [JsonNode (Si64V 10) [] [], JsonNode (Si64V 20) [] []]) [] []
         :: double JsonNode) ''/5''
     = Inl AssertionFailed
   \<and> resolvePointer_mut (ieee_ops (\<lambda>x. [])) False
      (JsonNode (VectorV [JsonNode (Si64V 10) [] [], JsonNode (Si64V 20) [] []]) [] []) ''/5''
     = (JsonNode (MapV [(''5'', JsonNode Monostate [] [])]) [] [], Inr (JsonNode Monostate [] []))"
  by (simp add: resolvePointer_const.simps resolvePointer_mut.simps resolver_eval)

subsection \<open>writeNode\<close>

text \<open>In compact mode nothing that the writer appends holds a newline: not the escaped
  strings, not the integers, and so, by induction on the node, not the text of a whole
  subtree.\<close>

lemma escape_char_no_newline: "CHR 0x0A \<notin> set (escape_char c)"
  by (simp add: escape_char_def escape_table_def)

lemma escape_spec_no_newline: "CHR 0x0A \<notin> set (escape_spec s)"
proof (induction s rule: escape_spec.induct)
  case 1
  show ?case by simp
next
  case (2 c)
  show ?case by (simp add: escape_char_no_newline)
next
  case (3 c d cs)
  have nocode: "CHR 0x0A \<notin> snd ` set escape_table"
    by (simp add: escape_table_def)
  show ?case
  proof (cases "c = CHR 0x5C \<and> d \<in> snd ` set escape_table")
    case True
    then have "d \<noteq> CHR 0x0A" using nocode by blast
    with True "3.IH"(1) show ?thesis by simp
  next
    case False
    then have "escape_spec (c # d # cs) = escape_char c @ escape_spec (d # cs)" by auto
    moreover have "CHR 0x0A \<notin> set (escape_spec (d # cs))" using "3.IH"(2) False by blast
    ultimately show ?thesis by (simp only: set_append Un_iff escape_char_no_newline) simp
  qed
qed

lemma show_nat_no_newline: "CHR 0x0A \<notin> set (show_nat k)"
proof (induction k rule: show_nat.induct)
  case (1 k)
  have digit: "CHR 0x0A \<noteq> ''0123456789'' ! j" if "j < 10" for j :: nat
  proof -
    from that have "''0123456789'' ! j \<in> set ''0123456789''" by (intro nth_mem) simp
    then show ?thesis by auto
  qed
  show ?case
  proof (cases "k < 10")
    case True
    then show ?thesis by (subst show_nat.simps) (simp add: digit)
  next
    case False
    with "1.IH" have "CHR 0x0A \<notin> set (show_nat (k div 10))" by simp
    moreover have "CHR 0x0A \<noteq> ''0123456789'' ! (k mod 10)" by (intro digit) simp
    ultimately show ?thesis using False by (subst show_nat.simps) simp
  qed
qed

lemma put_si64_no_newline: "CHR 0x0A \<notin> set (put_si64 i)"
  by (simp add: put_si64_def show_nat_no_newline)

lemma foldl_compact:
  assumes "compactMode w0"
    and "\<And>wi e. e \<in> set r \<Longrightarrow> compactMode wi \<Longrightarrow>
           \<exists>txt. f wi e = wi\<lparr>out := out wi @ txt\<rparr> \<and> CHR 0x0A \<notin> set txt"
  shows "\<exists>txt. foldl (\<lambda>wi ei. f (put wi (if compactMode wi then '', '' else [CHR '','', CHR 0x0A])) ei) w0 r
                 = w0\<lparr>out := out w0 @ txt\<rparr> \<and> CHR 0x0A \<notin> set txt"
  using assms
proof (induction r arbitrary: w0)
  case Nil
  have "w0 = w0\<lparr>out := out w0 @ []\<rparr>" by simp
  then show ?case by (intro exI [of _ "[]"]) simp
next
  case (Cons e r)
  let ?g = "\<lambda>wi ei. f (put wi (if compactMode wi then '', '' else [CHR '','', CHR 0x0A])) ei"
  have step: "foldl ?g w0 (e # r) = foldl ?g (f (put w0 '', '') e) r"
    using Cons.prems(1) by simp
  have "compactMode (put w0 '', '')" using Cons.prems(1) by (simp add: put_def)
  with Cons.prems(2) [of e "put w0 '', ''"] obtain t1
    where t1: "f (put w0 '', '') e = (put w0 '', '')\<lparr>out := out (put w0 '', '') @ t1\<rparr>"
      and n1: "CHR 0x0A \<notin> set t1" by auto
  define w2 where "w2 = w0\<lparr>out := out w0 @ '', '' @ t1\<rparr>"
  have e1: "f (put w0 '', '') e = w2" using t1 by (simp add: put_def w2_def)
  have cm2: "compactMode w2" using Cons.prems(1) by (simp add: w2_def)
  have "\<exists>txt. foldl ?g w2 r = w2\<lparr>out := out w2 @ txt\<rparr> \<and> CHR 0x0A \<notin> set txt"
  proof (rule Cons.IH [OF cm2])
    fix wi :: JsonWriter and e'
    assume "e' \<in> set r" "compactMode wi"
    then show "\<exists>txt. f wi e' = wi\<lparr>out := out wi @ txt\<rparr> \<and> CHR 0x0A \<notin> set txt"
      using Cons.prems(2) [of e' wi] by simp
  qed
  then obtain t2 where t2: "foldl ?g w2 r = w2\<lparr>out := out w2 @ t2\<rparr>"
    and n2: "CHR 0x0A \<notin> set t2" by blast
  have "foldl ?g w0 (e # r) = w0\<lparr>out := out w0 @ ('', '' @ t1 @ t2)\<rparr>"
    unfolding step e1 t2 by (simp add: w2_def)
  moreover have "CHR 0x0A \<notin> set ('', '' @ t1 @ t2)" using n1 n2 by simp
  ultimately show ?case by blast
qed

lemma writeContainer_compact:
  assumes "compactMode w"
    and "\<And>wi e. e \<in> set es \<Longrightarrow> compactMode wi \<Longrightarrow>
           \<exists>txt. f wi e = wi\<lparr>out := out wi @ txt\<rparr> \<and> CHR 0x0A \<notin> set txt"
  shows "\<exists>txt. writeContainer f w es = w\<lparr>out := out w @ txt\<rparr> \<and> CHR 0x0A \<notin> set txt"
proof (cases es)
  case Nil
  have "w = w\<lparr>out := out w @ []\<rparr>" by simp
  with Nil show ?thesis by (intro exI [of _ "[]"]) simp
next
  case (Cons e r)
  let ?g = "\<lambda>wi ei. f (put wi (if compactMode wi then '', '' else [CHR '','', CHR 0x0A])) ei"
  let ?w1 = "w\<lparr>prefix := prefix w @ [CHR 0x09]\<rparr>"
  have "compactMode ?w1" using assms(1) by simp
  with assms(2) [of e ?w1] Cons obtain t1
    where t1: "f ?w1 e = ?w1\<lparr>out := out ?w1 @ t1\<rparr>" and n1: "CHR 0x0A \<notin> set t1" by auto
  define w2 where "w2 = w\<lparr>prefix := prefix w @ [CHR 0x09], out := out w @ t1\<rparr>"
  have e1: "f ?w1 e = w2" using t1 by (simp add: w2_def)
  have cm2: "compactMode w2" using assms(1) by (simp add: w2_def)
  have "\<exists>txt. foldl ?g w2 r = w2\<lparr>out := out w2 @ txt\<rparr> \<and> CHR 0x0A \<notin> set txt"
  proof (rule foldl_compact [OF cm2])
    fix wi :: JsonWriter and e'
    assume "e' \<in> set r" "compactMode wi"
    then show "\<exists>txt. f wi e' = wi\<lparr>out := out wi @ txt\<rparr> \<and> CHR 0x0A \<notin> set txt"
      using assms(2) [of e' wi] Cons by simp
  qed
  then obtain t2 where t2: "foldl ?g w2 r = w2\<lparr>out := out w2 @ t2\<rparr>"
    and n2: "CHR 0x0A \<notin> set t2" by blast
  have "writeContainer f w (e # r) = w\<lparr>out := out w @ (t1 @ t2)\<rparr>"
    unfolding writeContainer.simps Let_def e1 t2 by (simp add: w2_def put_def assms(1))
  moreover have "CHR 0x0A \<notin> set (t1 @ t2)" using n1 n2 by simp
  ultimately show ?thesis using Cons by blast
qed

lemma writeEntry_head_compact: "compactMode w \<Longrightarrow> writeEntry_head w e = w"
  by (simp add: writeEntry_head_def)

lemma writeNode_compact:
  assumes nl: "\<And>x. CHR 0x0A \<notin> set (put_double ops x)"
  shows "compactMode w \<Longrightarrow>
         \<exists>txt. writeNode ops w n = w\<lparr>out := out w @ txt\<rparr> \<and> CHR 0x0A \<notin> set txt"
proof (induction n arbitrary: w)
  case (JsonNode d m fl)
  note cm = JsonNode.prems
  show ?case
  proof (cases d)
    case Monostate
    have "writeNode ops w (JsonNode d m fl) = w\<lparr>out := out w @ ''null''\<rparr>"
      using cm by (simp add: Monostate put_def)
    then show ?thesis by (intro exI [of _ "''null''"]) simp
  next
    case (BoolV b)
    have "writeNode ops w (JsonNode d m fl) = w\<lparr>out := out w @ (if b then ''true'' else ''false'')\<rparr>"
      using cm by (simp add: BoolV put_def)
    then show ?thesis by (intro exI [of _ "if b then ''true'' else ''false''"]) simp
  next
    case (DoubleV x)
    have "writeNode ops w (JsonNode d m fl) = w\<lparr>out := out w @ put_double ops x\<rparr>"
      using cm by (simp add: DoubleV put_def)
    then show ?thesis using nl by (intro exI [of _ "put_double ops x"]) simp
  next
    case (StringV s)
    have "writeNode ops w (JsonNode d m fl)
            = w\<lparr>out := out w @ ([CHR 0x22] @ escape_spec s @ [CHR 0x22])\<rparr>"
      using cm by (simp add: StringV writeString_put put_def)
    then show ?thesis
      by (intro exI [of _ "[CHR 0x22] @ escape_spec s @ [CHR 0x22]"])
         (simp add: escape_spec_no_newline)
  next
    case (Si64V i)
    have "writeNode ops w (JsonNode d m fl) = w\<lparr>out := out w @ put_si64 i\<rparr>"
      using cm by (simp add: Si64V put_def)
    then show ?thesis by (intro exI [of _ "put_si64 i"]) (simp add: put_si64_no_newline)
  next
    case (VectorV v)
    let ?f = "\<lambda>wi e. writeNode ops (writeEntry_head wi e) e"
    define w1 where "w1 = w\<lparr>out := out w @ ''[ ''\<rparr>"
    have cm1: "compactMode w1" using cm by (simp add: w1_def)
    have "\<exists>txt. writeContainer ?f w1 v = w1\<lparr>out := out w1 @ txt\<rparr> \<and> CHR 0x0A \<notin> set txt"
    proof (rule writeContainer_compact [OF cm1])
      fix wi :: JsonWriter and e
      assume "e \<in> set v" "compactMode wi"
      then show "\<exists>txt. ?f wi e = wi\<lparr>out := out wi @ txt\<rparr> \<and> CHR 0x0A \<notin> set txt"
        using JsonNode.IH [of e wi] by (simp add: VectorV writeEntry_head_compact)
    qed
    then obtain t where t: "writeContainer ?f w1 v = w1\<lparr>out := out w1 @ t\<rparr>"
      and nt: "CHR 0x0A \<notin> set t" by blast
    have "put w ''[ '' = w1" by (simp add: put_def w1_def)
    then have "writeNode ops w (JsonNode d m fl) = w\<lparr>out := out w @ (''[ '' @ t @ '' ]'')\<rparr>"
      using cm by (simp add: VectorV Let_def t) (simp add: w1_def put_def)
    then show ?thesis using nt by (intro exI [of _ "''[ '' @ t @ '' ]''"]) simp
  next
    case (MapV mp)
    let ?f = "\<lambda>wi (k, e). writeNode ops (put (writeString (writeEntry_head wi e) k) '' : '') e"
    define w1 where "w1 = w\<lparr>out := out w @ ''{ ''\<rparr>"
    have cm1: "compactMode w1" using cm by (simp add: w1_def)
    have "\<exists>txt. writeContainer ?f w1 mp = w1\<lparr>out := out w1 @ txt\<rparr> \<and> CHR 0x0A \<notin> set txt"
    proof (rule writeContainer_compact [OF cm1])
      fix wi :: JsonWriter and kv
      assume kv: "kv \<in> set mp" and cmi: "compactMode wi"
      obtain k e where ke: "kv = (k, e)" by (cases kv)
      define wk where "wk = wi\<lparr>out := out wi @ ([CHR 0x22] @ escape_spec k @ [CHR 0x22] @ '' : '')\<rparr>"
      have wk: "put (writeString (writeEntry_head wi e) k) '' : '' = wk"
        using cmi by (simp add: writeEntry_head_compact writeString_put put_def wk_def)
      have "e \<in> set2_JsonData d" using kv ke by (force simp: MapV)
      moreover have "compactMode wk" using cmi by (simp add: wk_def)
      ultimately obtain t where t: "writeNode ops wk e = wk\<lparr>out := out wk @ t\<rparr>"
        and nt: "CHR 0x0A \<notin> set t" using JsonNode.IH [of e wk] by blast
      have "?f wi kv = wi\<lparr>out := out wi @ ([CHR 0x22] @ escape_spec k @ [CHR 0x22] @ '' : '' @ t)\<rparr>"
        by (simp add: ke wk t) (simp add: wk_def)
      moreover have "CHR 0x0A \<notin> set ([CHR 0x22] @ escape_spec k @ [CHR 0x22] @ '' : '' @ t)"
        using nt by (simp add: escape_spec_no_newline)
      ultimately show "\<exists>txt. ?f wi kv = wi\<lparr>out := out wi @ txt\<rparr> \<and> CHR 0x0A \<notin> set txt"
        by blast
    qed
    then obtain t where t: "writeContainer ?f w1 mp = w1\<lparr>out := out w1 @ t\<rparr>"
      and nt: "CHR 0x0A \<notin> set t" by blast
    have "put w ''{ '' = w1" by (simp add: put_def w1_def)
    then have "writeNode ops w (JsonNode d m fl) = w\<lparr>out := out w @ (''{ '' @ t @ '' }'')\<rparr>"
      using cm by (simp add: MapV Let_def t) (simp add: w1_def put_def)
    then show ?thesis using nt by (intro exI [of _ "''{ '' @ t @ '' }''"]) simp
  qed
qed

lemma writeNode_restores: "compactMode (writeNode ops w n) = compactMode w"
  by (cases n) (simp add: Let_def)

lemma writeNode_activates:
  "compact w \<Longrightarrow> \<not> compactMode w \<Longrightarrow> isCompact n \<Longrightarrow>
   writeNode ops w n = (writeNode ops (w\<lparr>compactMode := True\<rparr>) n)\<lparr>compactMode := False\<rparr>"
  by (cases n) (simp add: Let_def)

text \<open>
  Claim C2, as amended. \<^verbatim>\<open>writeNode\<close> leaves \<^verbatim>\<open>compactMode\<close> as it found it. When the
  flag \<^verbatim>\<open>compact\<close> that the caller requested is true (not false), \<^verbatim>\<open>compactMode\<close> is not yet
  active and the node is compact, the node is written as with \<^verbatim>\<open>compactMode\<close> active and the
  flag is restored on exit; the text appended for the subtree is on a single line (it holds no
  newline), and nothing else of the writer changes. The printing of a double is taken to emit no
  newline.
\<close>

theorem writeNode_compactMode:
  assumes "\<forall>x. CHR 0x0A \<notin> set (put_double ops x)"
  shows "compactMode (writeNode ops w n) = compactMode w
       \<and> (compact w \<and> \<not> compactMode w \<and> isCompact n \<longrightarrow>
            writeNode ops w n = (writeNode ops (w\<lparr>compactMode := True\<rparr>) n)\<lparr>compactMode := False\<rparr>
            \<and> (\<exists>txt. writeNode ops w n = w\<lparr>out := out w @ txt\<rparr> \<and> CHR 0x0A \<notin> set txt))"
proof -
  have single: "\<exists>txt. writeNode ops w n = w\<lparr>out := out w @ txt\<rparr> \<and> CHR 0x0A \<notin> set txt"
    if c: "compact w" "\<not> compactMode w" "isCompact n"
  proof -
    define wa where "wa = w\<lparr>compactMode := True\<rparr>"
    have "compactMode wa" by (simp add: wa_def)
    with writeNode_compact [of ops wa n] assms obtain tx
      where t: "writeNode ops wa n = wa\<lparr>out := out wa @ tx\<rparr>" and nt: "CHR 0x0A \<notin> set tx"
      by blast
    have "writeNode ops w n = (wa\<lparr>out := out wa @ tx\<rparr>)\<lparr>compactMode := False\<rparr>"
      using writeNode_activates [OF c, of ops] t by (simp add: wa_def)
    also have "\<dots> = w\<lparr>out := out w @ tx\<rparr>"
      using c(2) by (cases w) (simp add: wa_def)
    finally have "writeNode ops w n = w\<lparr>out := out w @ tx\<rparr>" .
    with nt show ?thesis by blast
  qed
  show ?thesis
    using writeNode_restores [of ops w n] writeNode_activates [of w n ops] single by blast
qed

text \<open>A writer with \<^verbatim>\<open>compact\<close> set, at one level of indentation, on the Sequence [1].\<close>

theorem writeNode_compactMode_witness:
  "(\<forall>x. CHR 0x0A \<notin> set (put_double (ieee_ops (\<lambda>x. [])) x))
   \<and> isCompact (JsonNode (VectorV [JsonNode (Si64V 1) [] []]) [] [] :: double JsonNode)
   \<and> compactMode (writeNode (ieee_ops (\<lambda>x. []))
        \<lparr>prefix = [CHR 0x09], out = ''x'', compact = True, compactMode = False\<rparr>
        (JsonNode (VectorV [JsonNode (Si64V 1) [] []]) [] [])) = False
   \<and> (\<exists>txt. writeNode (ieee_ops (\<lambda>x. []))
        \<lparr>prefix = [CHR 0x09], out = ''x'', compact = True, compactMode = False\<rparr>
        (JsonNode (VectorV [JsonNode (Si64V 1) [] []]) [] [])
        = \<lparr>prefix = [CHR 0x09], out = ''x'' @ txt, compact = True, compactMode = False\<rparr>
        \<and> CHR 0x0A \<notin> set txt)"
proof -
  have h: "\<forall>x. CHR 0x0A \<notin> set (put_double (ieee_ops (\<lambda>x. [])) x)"
    by (simp add: ieee_ops_def put_si64_no_newline show_nat_no_newline split: prod.splits)
  show ?thesis
    using h writeNode_compactMode [OF h,
        of "\<lparr>prefix = [CHR 0x09], out = ''x'', compact = True, compactMode = False\<rparr>"
           "JsonNode (VectorV [JsonNode (Si64V 1) [] []]) [] []"]
    by simp
qed

text \<open>The claim as stated fails: with \<^verbatim>\<open>compact\<close> false the compact Sequence [1] is written
  on three lines, \<^verbatim>\<open>compactMode\<close> is never activated; with \<^verbatim>\<open>compact\<close> true it is written
  on one.\<close>

theorem writeNode_compact_false_counterexample:
  "isCompact (JsonNode (VectorV [JsonNode (Si64V 1) [] []]) [] [] :: double JsonNode)
   \<and> out (writeNode (ieee_ops (\<lambda>x. [])) \<lparr>prefix = [], out = [], compact = False, compactMode = False\<rparr>
        (JsonNode (VectorV [JsonNode (Si64V 1) [] []]) [] []))
     = [CHR ''['', CHR 0x0A, CHR 0x09, CHR ''1'', CHR 0x0A, CHR '']'']
   \<and> out (writeNode (ieee_ops (\<lambda>x. [])) \<lparr>prefix = [], out = [], compact = True, compactMode = False\<rparr>
        (JsonNode (VectorV [JsonNode (Si64V 1) [] []]) [] []))
     = ''[ 1 ]''"
  by code_simp

subsection \<open>toJson\<close>

text \<open>
  Claim C3, as amended. For the Mapping of name to "Ann" and tags to ["x", "y"] (no metadata,
  no flags), \<^verbatim>\<open>toJson(true)\<close> is the text of four lines
  \<^verbatim>\<open>{\<close>, tab \<^verbatim>\<open>"name" : "Ann",\<close>, tab \<^verbatim>\<open>"tags" : [ "x", "y" ]\<close>, \<^verbatim>\<open>}\<close>:
  a Mapping of two entries is not compact, so the root is laid out over several lines, and each
  of its two values, which is compact, is written on one line.
\<close>

theorem toJson_example:
  "toJson ops
     (JsonNode (MapV [(''name'', JsonNode (StringV ''Ann'') [] []),
                      (''tags'', JsonNode (VectorV [JsonNode (StringV ''x'') [] [],
                                                    JsonNode (StringV ''y'') [] []]) [] [])]) [] [])
     True
   = [CHR ''{'', CHR 0x0A,
      CHR 0x09, CHR 0x22] @ ''name'' @ [CHR 0x22] @ '' : '' @ [CHR 0x22] @ ''Ann'' @ [CHR 0x22, CHR '','', CHR 0x0A,
      CHR 0x09, CHR 0x22] @ ''tags'' @ [CHR 0x22] @ '' : [ '' @ [CHR 0x22] @ ''x'' @ [CHR 0x22] @ '', ''
        @ [CHR 0x22] @ ''y'' @ [CHR 0x22] @ '' ]'' @ [CHR 0x0A,
      CHR ''}'']"
  by code_simp

text \<open>The claim as stated fails: the text is not the single line
  \<^verbatim>\<open>{ "name" : "Ann", "tags" : [ "x", "y" ] }\<close>.\<close>

theorem toJson_example_counterexample:
  "toJson (ieee_ops (\<lambda>x. []))
     (JsonNode (MapV [(''name'', JsonNode (StringV ''Ann'') [] []),
                      (''tags'', JsonNode (VectorV [JsonNode (StringV ''x'') [] [],
                                                    JsonNode (StringV ''y'') [] []]) [] [])]) [] [])
     True
   \<noteq> ''{ '' @ [CHR 0x22] @ ''name'' @ [CHR 0x22] @ '' : '' @ [CHR 0x22] @ ''Ann'' @ [CHR 0x22] @ '', ''
        @ [CHR 0x22] @ ''tags'' @ [CHR 0x22] @ '' : [ '' @ [CHR 0x22] @ ''x'' @ [CHR 0x22] @ '', ''
        @ [CHR 0x22] @ ''y'' @ [CHR 0x22] @ '' ] }''"
  by code_simp

text \<open>With the float primitives instantiated, the text holds a newline.\<close>

theorem toJson_example_witness:
  "CHR 0x0A \<in> set (toJson (ieee_ops (\<lambda>x. []))
     (JsonNode (MapV [(''name'', JsonNode (StringV ''Ann'') [] []),
                      (''tags'', JsonNode (VectorV [JsonNode (StringV ''x'') [] [],
                                                    JsonNode (StringV ''y'') [] []]) [] [])]) [] [])
     True)"
  using toJson_example [of "ieee_ops (\<lambda>x. [])"] by simp

end
